theory Spec2Isabelle
  imports Main "HOL-Library.Sublist"
begin

section \<open>JavaScript values and their text\<close>

text \<open>
  The renderer of \<^verbatim>\<open>src/resultsview/common.ts\<close> builds one HTML string from a
  batch of query results. The model keeps the strings: every function below returns the
  text the TypeScript returns, character by character. A JavaScript value (a cell of a
  row, the caller's state) is a tree; numbers are the integers and the three values
  \<^verbatim>\<open>NaN\<close>, \<^verbatim>\<open>Infinity\<close> and \<^verbatim>\<open>-Infinity\<close> (fractions are left
  out of the model), objects are plain lists of properties, and a string is a list of
  characters. What the
  renderer takes from the editor and the clock (the address of the page script, the nonce,
  the configuration option) and the field formatter are parameters. The functions
  \<^verbatim>\<open>disposeAll\<close>, \<^verbatim>\<open>getExtensionResourcePath\<close> and
  \<^verbatim>\<open>base64Entities\<close> only call the editor or the platform and are not modelled.
\<close>

datatype jsval =
    JUndefined
  | JNull
  | JBool bool
  | JNum int
  | JNaN
  | JInfinity
  | JNegInfinity
  | JStr string
  | JArr "jsval list"
  | JObj "(string \<times> jsval) list"

text \<open>The only exception the renderer itself can raise: reading a property of, or
  iterating, \<^verbatim>\<open>undefined\<close>.\<close>

datatype error = TypeError

text \<open>Decimal text of a number, as a template literal prints an integer.\<close>

definition digit_char :: "nat \<Rightarrow> char" where
  "digit_char d = ''0123456789'' ! d"

fun show_nat :: "nat \<Rightarrow> string" where
  "show_nat n = (if n < 10 then [digit_char n] else show_nat (n div 10) @ [digit_char (n mod 10)])"

declare show_nat.simps [simp del]

definition show_int :: "int \<Rightarrow> string" where
  "show_int i = (if i < 0 then CHR ''-'' # show_nat (nat (- i)) else show_nat (nat i))"

text \<open>\<^verbatim>\<open>Array.prototype.join\<close> on the texts of the elements.\<close>

fun array_join :: "string \<Rightarrow> string list \<Rightarrow> string" where
  "array_join sep [] = []"
| "array_join sep [x] = x"
| "array_join sep (x # y # ys) = x @ sep @ array_join sep (y # ys)"

text \<open>\<^verbatim>\<open>String(v)\<close>: an array prints its elements joined by commas, with
  \<^verbatim>\<open>null\<close> and \<^verbatim>\<open>undefined\<close> elements printed as nothing.\<close>

fun toString :: "jsval \<Rightarrow> string" where
  "toString JUndefined = ''undefined''"
| "toString JNull = ''null''"
| "toString (JBool b) = (if b then ''true'' else ''false'')"
| "toString (JNum i) = show_int i"
| "toString JNaN = ''NaN''"
| "toString JInfinity = ''Infinity''"
| "toString JNegInfinity = ''-Infinity''"
| "toString (JStr s) = s"
| "toString (JArr xs) =
     array_join '','' (map (\<lambda>x. if x = JUndefined \<or> x = JNull then [] else toString x) xs)"
| "toString (JObj kvs) = ''[object Object]''"

text \<open>\<^verbatim>\<open>JSON.stringify\<close>. A string is quoted with the escapes of the standard:
  the double quote, the backslash, the five short control escapes, and
  \<^verbatim>\<open>\u00XX\<close> for every other character below the space.\<close>

definition hex_char :: "nat \<Rightarrow> char" where
  "hex_char d = ''0123456789abcdef'' ! d"

definition quoteJSONChar :: "char \<Rightarrow> string" where
  "quoteJSONChar c =
     (if c = CHR 0x22 then [CHR 0x5C, CHR 0x22]
      else if c = CHR 0x5C then [CHR 0x5C, CHR 0x5C]
      else if c = CHR 0x08 then [CHR 0x5C, CHR ''b'']
      else if c = CHR 0x09 then [CHR 0x5C, CHR ''t'']
      else if c = CHR 0x0A then [CHR 0x5C, CHR ''n'']
      else if c = CHR 0x0C then [CHR 0x5C, CHR ''f'']
      else if c = CHR 0x0D then [CHR 0x5C, CHR ''r'']
      else if (of_char c :: nat) < 32
        then [CHR 0x5C, CHR ''u'', CHR ''0'', CHR ''0'',
              hex_char ((of_char c :: nat) div 16), hex_char ((of_char c :: nat) mod 16)]
      else [c])"

definition quoteJSONString :: "string \<Rightarrow> string" where
  "quoteJSONString s = CHR 0x22 # concat (map quoteJSONChar s) @ [CHR 0x22]"

text \<open>The result is \<open>None\<close> where JavaScript returns \<^verbatim>\<open>undefined\<close>. Inside an
  array an \<^verbatim>\<open>undefined\<close> element prints as \<^verbatim>\<open>null\<close>; inside an object
  a property whose value is \<^verbatim>\<open>undefined\<close> is left out.\<close>

fun JSON_stringify :: "jsval \<Rightarrow> string option" where
  "JSON_stringify JUndefined = None"
| "JSON_stringify JNull = Some ''null''"
| "JSON_stringify (JBool b) = Some (if b then ''true'' else ''false'')"
| "JSON_stringify (JNum i) = Some (show_int i)"
| "JSON_stringify JNaN = Some ''null''"
| "JSON_stringify JInfinity = Some ''null''"
| "JSON_stringify JNegInfinity = Some ''null''"
| "JSON_stringify (JStr s) = Some (quoteJSONString s)"
| "JSON_stringify (JArr xs) =
     Some (''['' @
       array_join '','' (map (\<lambda>x. case JSON_stringify x of None \<Rightarrow> ''null'' | Some s \<Rightarrow> s) xs) @
       '']'')"
| "JSON_stringify (JObj kvs) =
     Some (''{'' @
       array_join '',''
         (concat (map (\<lambda>(k, v). case JSON_stringify v of None \<Rightarrow> []
                                  | Some s \<Rightarrow> [quoteJSONString k @ '':'' @ s]) kvs)) @
       ''}'')"

text \<open>Truthiness, for \<^verbatim>\<open>state || {}\<close>.\<close>

fun truthy :: "jsval \<Rightarrow> bool" where
  "truthy JUndefined = False"
| "truthy JNull = False"
| "truthy (JBool b) = b"
| "truthy (JNum i) = (i \<noteq> 0)"
| "truthy JNaN = False"
| "truthy JInfinity = True"
| "truthy JNegInfinity = True"
| "truthy (JStr s) = (s \<noteq> [])"
| "truthy (JArr xs) = True"
| "truthy (JObj kvs) = True"

text \<open>\<^verbatim>\<open>.replace(/"/g, '&quot;')\<close>: every double quote becomes the entity.\<close>

fun replace_quotes :: "string \<Rightarrow> string" where
  "replace_quotes [] = []"
| "replace_quotes (c # cs) =
     (if c = CHR 0x22 then ''&quot;'' @ replace_quotes cs else c # replace_quotes cs)"

section \<open>The data model\<close>

text \<open>
  Modelled from the spec: the declarations of \<^verbatim>\<open>QueryResults\<close> and
  \<^verbatim>\<open>FieldInfo\<close> (\<^verbatim>\<open>src/common/database\<close>, imported by the renderer and not
  among the sources). The fields are those the renderer reads. The property
  \<^verbatim>\<open>fields\<close> is \<open>result_fields\<close> here, since the record package owns the
  name \<open>fields\<close>. The fields, the rows and the message may be absent (\<open>None\<close>), as
  the guards of the renderer allow; a row is a positional sequence of raw values, and the
  row count is a whole number.
\<close>

record FieldInfo =
  name :: string
  display_type :: string
  format :: string

record QueryResults =
  command :: string
  rowCount :: int
  result_fields :: "FieldInfo list option"
  rows :: "jsval list list option"
  message :: "string option"

text \<open>
  Modelled from the spec: the field formatter \<^verbatim>\<open>formatFieldValue\<close>
  (\<^verbatim>\<open>src/common/formatting\<close>, not among the sources) is a parameter of the
  renderer: a total function of the field, the raw value and the flag, whose result is a
  string, or \<open>None\<close> for a falsy result that is no string.
\<close>

type_synonym formatter = "FieldInfo \<Rightarrow> jsval \<Rightarrow> bool \<Rightarrow> string option"

text \<open>The result as the object \<^verbatim>\<open>JSON.stringify\<close> walks: its present properties,
  in the order of the data model.\<close>

definition FieldInfo_object :: "FieldInfo \<Rightarrow> jsval" where
  "FieldInfo_object f =
     JObj [(''name'', JStr (name f)), (''display_type'', JStr (display_type f)),
           (''format'', JStr (format f))]"

definition QueryResults_object :: "QueryResults \<Rightarrow> jsval" where
  "QueryResults_object r =
     JObj ([(''command'', JStr (command r)), (''rowCount'', JNum (rowCount r))] @
           (case result_fields r of None \<Rightarrow> [] | Some fs \<Rightarrow> [(''fields'', JArr (map FieldInfo_object fs))]) @
           (case rows r of None \<Rightarrow> [] | Some rws \<Rightarrow> [(''rows'', JArr (map JArr rws))]) @
           (case message r of None \<Rightarrow> [] | Some m \<Rightarrow> [(''message'', JStr m)]))"

section \<open>The statement fragments\<close>

definition getRowCountResult :: "int \<Rightarrow> string \<Rightarrow> string \<Rightarrow> string" where
  "getRowCountResult rc txt preClass =
     (let rowOrRows = (if rc = 1 then ''row'' else ''rows'')
      in ''<pre class=\"vscode-postgres-result vscode-postgres-result-'' @ preClass @ ''\">'' @
         show_int rc @ '' '' @ rowOrRows @ '' '' @ txt @ ''</pre>'')"

text \<open>The table. The three loops of \<^verbatim>\<open>generateSelectTableResult\<close> append to the
  string built so far; the row loop also carries the counter \<^verbatim>\<open>rowIndex\<close>.
  Reading a row past its end gives \<^verbatim>\<open>undefined\<close>. Iterating absent fields
  raises.\<close>

fun header_loop :: "string \<Rightarrow> FieldInfo list \<Rightarrow> string" where
  "header_loop html [] = html"
| "header_loop html (field # rest) =
     header_loop
       (html @ ''<th><div class=\"field-name\">'' @ name field @
          ''</div><div class=\"field-type\">'' @ display_type field @ ''</div></th>'')
       rest"

definition row_at :: "jsval list \<Rightarrow> nat \<Rightarrow> jsval" where
  "row_at row idx = (if idx < length row then row ! idx else JUndefined)"

fun cells_loop :: "formatter \<Rightarrow> jsval list \<Rightarrow> string \<Rightarrow> nat \<Rightarrow> FieldInfo list \<Rightarrow> string" where
  "cells_loop fmt row html idx [] = html"
| "cells_loop fmt row html idx (field # rest) =
     (let formatted = fmt field (row_at row idx) False
      in cells_loop fmt row
           (html @ ''<td class=\"'' @ format field @ ''-field\">'' @
              (case formatted of None \<Rightarrow> [] | Some s \<Rightarrow> if s \<noteq> [] then s else []) @ ''</td>'')
           (idx + 1) rest)"

fun rows_loop ::
  "formatter \<Rightarrow> FieldInfo list \<Rightarrow> string \<Rightarrow> nat \<Rightarrow> jsval list list \<Rightarrow> string \<times> nat" where
  "rows_loop fmt fs html rowIndex [] = (html, rowIndex)"
| "rows_loop fmt fs html rowIndex (row # rest) =
     (let html1 = html @ ''<tr><th class=\"row-header\">'' @ show_nat rowIndex @ ''</th>'';
          html2 = cells_loop fmt row html1 0 fs;
          html3 = html2 @ ''</tr>''
      in rows_loop fmt fs html3 (rowIndex + 1) rest)"

definition generateSelectTableResult :: "formatter \<Rightarrow> QueryResults \<Rightarrow> error + string" where
  "generateSelectTableResult fmt r =
     (let html = ''<table>'';
          html = html @ ''<thead><tr><th></th>''
      in case result_fields r of
           None \<Rightarrow> Inl TypeError
         | Some fs \<Rightarrow>
             (let html = header_loop html fs;
                  html = html @ ''</tr></thead>'';
                  rowIndex = 1;
                  html = html @ ''<tbody>'';
                  html = (case rows r of
                            None \<Rightarrow> html
                          | Some rws \<Rightarrow> if rws \<noteq> [] then fst (rows_loop fmt fs html rowIndex rws) else html);
                  html = html @ ''</tbody>'';
                  html = html @ ''</table>''
              in Inr html))"

text \<open>The guard of the three generators for statements that change rows: fields and rows
  both present and not empty.\<close>

definition has_fields_and_rows :: "QueryResults \<Rightarrow> bool" where
  "has_fields_and_rows r =
     (case result_fields r of
        None \<Rightarrow> False
      | Some fs \<Rightarrow> fs \<noteq> [] \<and> (case rows r of None \<Rightarrow> False | Some rws \<Rightarrow> rws \<noteq> []))"

definition generateInsertResults :: "formatter \<Rightarrow> QueryResults \<Rightarrow> error + string" where
  "generateInsertResults fmt r =
     (let html = getRowCountResult (rowCount r) ''inserted'' ''insert''
      in if has_fields_and_rows r
         then (case generateSelectTableResult fmt r of Inl e \<Rightarrow> Inl e | Inr t \<Rightarrow> Inr (html @ t))
         else Inr html)"

definition generateUpdateResults :: "formatter \<Rightarrow> QueryResults \<Rightarrow> error + string" where
  "generateUpdateResults fmt r =
     (let html = getRowCountResult (rowCount r) ''updated'' ''update''
      in if has_fields_and_rows r
         then (case generateSelectTableResult fmt r of Inl e \<Rightarrow> Inl e | Inr t \<Rightarrow> Inr (html @ t))
         else Inr html)"

definition generateCreateResults :: "QueryResults \<Rightarrow> string" where
  "generateCreateResults r = getRowCountResult (rowCount r) ''created'' ''create''"

definition generateDeleteResults :: "formatter \<Rightarrow> QueryResults \<Rightarrow> error + string" where
  "generateDeleteResults fmt r =
     (let html = getRowCountResult (rowCount r) ''deleted'' ''delete''
      in if has_fields_and_rows r
         then (case generateSelectTableResult fmt r of Inl e \<Rightarrow> Inl e | Inr t \<Rightarrow> Inr (html @ t))
         else Inr html)"

text \<open>The plan of an EXPLAIN: the rows joined by a line feed, each row printed as
  \<^verbatim>\<open>String(row)\<close>. Absent rows raise.\<close>

definition generateExplainResult :: "QueryResults \<Rightarrow> error + string" where
  "generateExplainResult r =
     (case rows r of
        None \<Rightarrow> Inl TypeError
      | Some rws \<Rightarrow>
          Inr (''<pre class=\"vscode-postgres-result vscode-postgres-result-explain\">'' @
               array_join ''\<newline>'' (map (\<lambda>row. toString (JArr row)) rws) @ ''</pre>''))"

definition generateGenericResult :: "QueryResults \<Rightarrow> string" where
  "generateGenericResult r =
     ''<pre class=\"vscode-postgres-result vscode-postgres-result-generic\">'' @
     (case JSON_stringify (QueryResults_object r) of None \<Rightarrow> ''undefined'' | Some s \<Rightarrow> s) @
     ''</pre>''"

definition generateMessage :: "QueryResults \<Rightarrow> string" where
  "generateMessage r =
     ''<pre class=\"vscode-postgres-result vscode-postgres-result-message\">'' @
     (case message r of None \<Rightarrow> ''undefined'' | Some m \<Rightarrow> m) @ ''</pre>''"

definition generateSelectResult :: "formatter \<Rightarrow> QueryResults \<Rightarrow> error + string" where
  "generateSelectResult fmt r =
     (let html = getRowCountResult (rowCount r) ''returned'' ''select''
      in case generateSelectTableResult fmt r of Inl e \<Rightarrow> Inl e | Inr t \<Rightarrow> Inr (html @ t))"

section \<open>The dispatcher\<close>

definition divider :: string where
  "divider = ''<hr class=\"result-divider\" />''"

text \<open>The \<^verbatim>\<open>switch\<close> of \<^verbatim>\<open>getResultsTables\<close>: the fragment of one result.\<close>

definition switch_command :: "formatter \<Rightarrow> QueryResults \<Rightarrow> error + string" where
  "switch_command fmt r =
     (if command r = ''ext-message'' then Inr (generateMessage r)
      else if command r = ''INSERT'' then generateInsertResults fmt r
      else if command r = ''UPDATE'' then generateUpdateResults fmt r
      else if command r = ''CREATE'' then Inr (generateCreateResults r)
      else if command r = ''DELETE'' then generateDeleteResults fmt r
      else if command r = ''EXPLAIN'' then generateExplainResult r
      else if command r = ''SELECT'' then generateSelectResult fmt r
      else Inr (generateGenericResult r))"

text \<open>The loop of \<^verbatim>\<open>getResultsTables\<close>, with its two variables \<^verbatim>\<open>html\<close> and
  \<^verbatim>\<open>first\<close>; an exception of a generator ends it.\<close>

fun results_loop :: "formatter \<Rightarrow> string \<Rightarrow> bool \<Rightarrow> QueryResults list \<Rightarrow> error + string" where
  "results_loop fmt html first [] = Inr html"
| "results_loop fmt html first (r # rest) =
     (let html1 = (if \<not> first then html @ divider else html)
      in case switch_command fmt r of
           Inl e \<Rightarrow> Inl e
         | Inr fragment \<Rightarrow> results_loop fmt (html1 @ fragment) False rest)"

definition getResultsTables :: "formatter \<Rightarrow> QueryResults list \<Rightarrow> error + string" where
  "getResultsTables fmt results = results_loop fmt [] True results"

section \<open>The document\<close>

text \<open>The stylesheet. The configuration option \<^verbatim>\<open>prettyPrintJSONfields\<close> is the
  parameter \<open>pretty\<close>.\<close>

definition prettyJsonFieldStyle :: "bool \<Rightarrow> string" where
  "prettyJsonFieldStyle pretty =
     (if pretty then
     (''\<newline>'' @
     ''    .jsonb-field, .json-field {\<newline>'' @
     ''      white-space: pre;\<newline>'' @
     ''    }\<newline>'' @
     ''    '')
      else [])"

definition getStyles :: "string \<Rightarrow> bool \<Rightarrow> string" where
  "getStyles nonce pretty =
     ''<style nonce=\"'' @ nonce @
     (''\">\<newline>'' @
     ''    body {\<newline>'' @
     ''      margin: 0;\<newline>'' @
     ''      padding: 0;\<newline>'' @
     ''    }\<newline>'' @
     ''\<newline>'' @
     ''    pre.vscode-postgres-result {\<newline>'' @
     ''      margin: 5px;\<newline>'' @
     ''    }\<newline>'' @
     ''    \<newline>'' @
     ''    pre.vscode-postgres-result-insert {\<newline>'' @
     ''    \<newline>'' @
     ''    }\<newline>'' @
     ''    \<newline>'' @
     ''    pre.vscode-postgres-result-update {\<newline>'' @
     ''      \<newline>'' @
     ''    }\<newline>'' @
     ''    \<newline>'' @
     ''    pre.vscode-postgres-result-create {\<newline>'' @
     ''      \<newline>'' @
     ''    }\<newline>'' @
     ''    \<newline>'' @
     ''    pre.vscode-postgres-result-delete {\<newline>'' @
     ''      \<newline>'' @
     ''    }\<newline>'' @
     ''    \<newline>'' @
     ''    pre.vscode-postgres-result-explain {\<newline>'' @
     ''      \<newline>'' @
     ''    }\<newline>'' @
     ''    \<newline>'' @
     ''    pre.vscode-postgres-result-generic {\<newline>'' @
     ''      \<newline>'' @
     ''    }\<newline>'' @
     ''    \<newline>'' @
     ''    pre.vscode-postgres-result-message {\<newline>'' @
     ''      \<newline>'' @
     ''    }\<newline>'' @
     ''\<newline>'' @
     ''    pre.vscode-postgres-result-select {\<newline>'' @
     ''      \<newline>'' @
     ''    }\<newline>'' @
     ''\<newline>'' @
     ''    .field-type {\<newline>'' @
     ''      font-size: smaller;\<newline>'' @
     ''    }\<newline>'' @
     ''\<newline>'' @
     ''    '') @
     prettyJsonFieldStyle pretty @
     (''\<newline>'' @
     ''    \<newline>'' @
     ''    table {\<newline>'' @
     ''      border-collapse: collapse;\<newline>'' @
     ''    }\<newline>'' @
     ''\<newline>'' @
     ''    thead th {\<newline>'' @
     ''      position: sticky;\<newline>'' @
     ''      top: -1px;\<newline>'' @
     ''      background-color: var(--vscode-editor-background, var(--theme-background));\<newline>'' @
     ''    }\<newline>'' @
     ''\<newline>'' @
     ''    thead th::after {\<newline>'' @
     ''      content: '' @ [CHR 0x27, CHR 0x27] @ '';\<newline>'' @
     ''      position: absolute;\<newline>'' @
     ''      top: -1px;\<newline>'' @
     ''      right: -1px;\<newline>'' @
     ''      left: -1px;\<newline>'' @
     ''      height: 100%;\<newline>'' @
     ''      border: 1px solid var(--vscode-panel-border);\<newline>'' @
     ''      pointer-events: none;\<newline>'' @
     ''    }\<newline>'' @
     ''    \<newline>'' @
     ''    th, td {\<newline>'' @
     ''      border-width: 1px;\<newline>'' @
     ''      border-style: solid;\<newline>'' @
     ''      border-color: var(--vscode-panel-border);\<newline>'' @
     ''      padding: 3px 5px;\<newline>'' @
     ''    }\<newline>'' @
     ''    \<newline>'' @
     ''    .timestamptz-field { white-space: nowrap; }\<newline>'' @
     ''\<newline>'' @
     ''    .result-divider {\<newline>'' @
     ''      padding: 0;\<newline>'' @
     ''      border: none;\<newline>'' @
     ''      border-top: medium double var(--vscode-panel-border);\<newline>'' @
     ''    }\<newline>'' @
     ''  </style>'')"

text \<open>The head of the document up to the opening quote of the state attribute, the
  attribute's value, and the document. The address of the page script and the nonce (read
  from the clock in the source) are parameters.\<close>

definition document_head :: string where
  "document_head =
     ''<!DOCTYPE html>\<newline>'' @
     ''  <html lang=\"en\">\<newline>'' @
     ''    <head>\<newline>'' @
     ''      <meta charset=\"UTF-8\">\<newline>'' @
     ''      <meta name=\"viewport\" content=\"width=device-width, initial-scale=1.0\">\<newline>'' @
     ''      <meta id=\"vscode-postgres-results-data\"\<newline>'' @
     ''        data-settings=\"\"\<newline>'' @
     ''        data-state=\"''"

definition state_attribute :: "jsval \<Rightarrow> error + string" where
  "state_attribute state =
     (case JSON_stringify (if truthy state then state else JObj []) of
        None \<Rightarrow> Inl TypeError
      | Some s \<Rightarrow> Inr (replace_quotes s))"

definition generateResultsHtml ::
  "string \<Rightarrow> string \<Rightarrow> bool \<Rightarrow> formatter \<Rightarrow> QueryResults list \<Rightarrow> jsval \<Rightarrow> error + string" where
  "generateResultsHtml pageScript nonce pretty fmt results state =
     (case state_attribute state of
        Inl e \<Rightarrow> Inl e
      | Inr attr \<Rightarrow>
          (case getResultsTables fmt results of
             Inl e \<Rightarrow> Inl e
           | Inr tables \<Rightarrow>
               Inr (document_head @ attr @ ''\" />\<newline>'' @
                    ''      <script src=\"'' @ pageScript @ ''\" nonce=\"'' @ nonce @ ''\"></script>\<newline>'' @
                    ''      '' @ getStyles nonce pretty @ ''\<newline>'' @
                    ''    </head>\<newline>'' @
                    ''    <body class=\"vscode-body\">\<newline>'' @
                    ''      '' @ tables @ ''\<newline>'' @
                    ''    </body>\<newline>'' @
                    ''  </html>'')))"

section \<open>Reading the output\<close>

text \<open>
  The claims count tags in the text the renderer returns. \<open>occurrences p s\<close> is the number
  of positions of \<open>s\<close> at which \<open>p\<close> starts. It reads the texts that are the
  renderer's own, which are in lower case: such a text holds no table tag when
  \<^verbatim>\<open><t\<close> occurs nowhere in it.
\<close>

fun occurrences :: "string \<Rightarrow> string \<Rightarrow> nat" where
  "occurrences p [] = 0"
| "occurrences p (c # cs) = (if prefix p (c # cs) then 1 else 0) + occurrences p cs"

text \<open>
  Where data is embedded, tags are read as HTML reads them, without regard to the case of
  the letters. A tag named \<open>nm\<close> opens at a position of a text when \<^verbatim>\<open><\<close>
  stands there, followed by the letters of the name, each in lower or in upper case,
  followed by the end of the name: white space, \<^verbatim>\<open>/\<close>, \<^verbatim>\<open>>\<close> or the end of
  the text. Names are given in lower case. An end tag is read as the tag whose name starts
  with \<^verbatim>\<open>/\<close>: \<open>tag_count ''/pre''\<close> counts the end tags of \<^verbatim>\<open>pre\<close>.
  \<open>tag_count nm s\<close> is the number of positions of \<open>s\<close> at which a tag named
  \<open>nm\<close> opens, and a text is free of a list of tags when it opens none of them.
\<close>

definition upper_char :: "char \<Rightarrow> char" where
  "upper_char c =
     (case map_of (zip ''abcdefghijklmnopqrstuvwxyz'' ''ABCDEFGHIJKLMNOPQRSTUVWXYZ'') c of
        None \<Rightarrow> c
      | Some u \<Rightarrow> u)"

definition tag_end :: "char \<Rightarrow> bool" where
  "tag_end c \<longleftrightarrow> c \<in> set [CHR 0x20, CHR 0x09, CHR 0x0A, CHR 0x0C, CHR 0x0D, CHR ''/'', CHR ''>'']"

fun name_matches :: "string \<Rightarrow> string \<Rightarrow> bool" where
  "name_matches [] s = (case s of [] \<Rightarrow> True | c # _ \<Rightarrow> tag_end c)"
| "name_matches (n # nm) [] = False"
| "name_matches (n # nm) (c # s) = ((c = n \<or> c = upper_char n) \<and> name_matches nm s)"

definition opens_tag :: "string \<Rightarrow> string \<Rightarrow> bool" where
  "opens_tag nm s = (case s of [] \<Rightarrow> False | c # cs \<Rightarrow> c = CHR ''<'' \<and> name_matches nm cs)"

fun tag_count :: "string \<Rightarrow> string \<Rightarrow> nat" where
  "tag_count nm [] = 0"
| "tag_count nm (c # cs) = (if opens_tag nm (c # cs) then 1 else 0) + tag_count nm cs"

definition free_of :: "string list \<Rightarrow> string \<Rightarrow> bool" where
  "free_of tags s \<longleftrightarrow> list_all (\<lambda>nm. tag_count nm s = 0) tags"

text \<open>
  The markup of a table: the start and the end tags of the elements a table is made of.
\<close>

definition table_elements :: "string list" where
  "table_elements =
     [''table'', ''caption'', ''colgroup'', ''col'', ''thead'', ''tbody'', ''tfoot'', ''tr'',
      ''th'', ''td'']"

definition table_tags :: "string list" where
  "table_tags = table_elements @ map (\<lambda>nm. CHR ''/'' # nm) table_elements"

text \<open>
  The state a reader of the document finds: the value of the attribute
  \<^verbatim>\<open>data-state\<close>, that is the text between the first \<^verbatim>\<open>data-state="\<close> and
  the next double quote.
\<close>

fun text_after :: "string \<Rightarrow> string \<Rightarrow> string option" where
  "text_after p [] = None"
| "text_after p (c # cs) =
     (if prefix p (c # cs) then Some (drop (length p) (c # cs)) else text_after p cs)"

definition data_state :: "string \<Rightarrow> string option" where
  "data_state doc =
     map_option (takeWhile (\<lambda>c. c \<noteq> CHR 0x22)) (text_after ''data-state=\"'' doc)"

definition embedded_state :: "error + string \<Rightarrow> string option" where
  "embedded_state res = (case res of Inl e \<Rightarrow> None | Inr doc \<Rightarrow> data_state doc)"

text \<open>
  The reversal of the escaping that the round-trip property speaks of (every
  \<^verbatim>\<open>&quot;\<close> back to a double quote, left to right). It is the reader's half of the
  round trip, not part of the renderer.
\<close>

function restore_quotes :: "string \<Rightarrow> string" where
  "restore_quotes [] = []"
| "restore_quotes (c # cs) =
     (if prefix ''&quot;'' (c # cs) then CHR 0x22 # restore_quotes (drop 5 cs)
      else c # restore_quotes cs)"
  by pat_completeness auto
termination
  by (relation "measure length") auto

section \<open>The table in closed form\<close>

text \<open>
  The table of the design, written without loops: a header row of one empty cell and one
  cell per field, and one body row per row, whose first cell is the number of the row,
  counted from 1. The loops of \<open>generateSelectTableResult\<close> are proved to build exactly
  this text (\<open>generateSelectTableResult_eq\<close>).
\<close>

definition cell_text :: "string option \<Rightarrow> string" where
  "cell_text formatted = (case formatted of None \<Rightarrow> [] | Some s \<Rightarrow> if s \<noteq> [] then s else [])"

definition header_cell :: "FieldInfo \<Rightarrow> string" where
  "header_cell field =
     ''<th><div class=\"field-name\">'' @ name field @
     ''</div><div class=\"field-type\">'' @ display_type field @ ''</div></th>''"

definition data_cell :: "formatter \<Rightarrow> FieldInfo \<Rightarrow> jsval \<Rightarrow> string" where
  "data_cell fmt field v =
     ''<td class=\"'' @ format field @ ''-field\">'' @ cell_text (fmt field v False) @ ''</td>''"

definition row_cells :: "formatter \<Rightarrow> FieldInfo list \<Rightarrow> jsval list \<Rightarrow> string" where
  "row_cells fmt fs row =
     concat (map (\<lambda>i. data_cell fmt (fs ! i) (row_at row i)) [0..<length fs])"

definition body_row :: "formatter \<Rightarrow> FieldInfo list \<Rightarrow> nat \<Rightarrow> jsval list \<Rightarrow> string" where
  "body_row fmt fs k row =
     ''<tr><th class=\"row-header\">'' @ show_nat k @ ''</th>'' @ row_cells fmt fs row @ ''</tr>''"

definition table_head :: "FieldInfo list \<Rightarrow> string" where
  "table_head fs = ''<thead><tr><th></th>'' @ concat (map header_cell fs) @ ''</tr></thead>''"

definition table_body :: "formatter \<Rightarrow> FieldInfo list \<Rightarrow> jsval list list \<Rightarrow> string" where
  "table_body fmt fs rws =
     ''<tbody>'' @ concat (map (\<lambda>i. body_row fmt fs (i + 1) (rws ! i)) [0..<length rws]) @ ''</tbody>''"

text \<open>
  The data of a table is free of table markup when no field name, display type or format
  tag and no formatted cell holds a start or end tag of a table element.
  \<open>clean_cell\<close> is the condition on the cell of one field in one row.
\<close>

definition table_markup_free :: "formatter \<Rightarrow> FieldInfo list \<Rightarrow> jsval list list \<Rightarrow> bool" where
  "table_markup_free fmt fs rws \<longleftrightarrow>
     list_all (\<lambda>f. free_of table_tags (name f) \<and> free_of table_tags (display_type f) \<and>
                   free_of table_tags (format f)) fs \<and>
     list_all (\<lambda>row. list_all (\<lambda>i. free_of table_tags (cell_text (fmt (fs ! i) (row_at row i) False)))
                        [0..<length fs]) rws"

definition clean_cell :: "formatter \<Rightarrow> FieldInfo list \<Rightarrow> jsval list \<Rightarrow> nat \<Rightarrow> bool" where
  "clean_cell fmt fs row i \<longleftrightarrow>
     free_of table_tags (format (fs ! i)) \<and>
     free_of table_tags (cell_text (fmt (fs ! i) (row_at row i) False))"

section \<open>Sample inputs\<close>

text \<open>
  Concrete inputs on which the theorems below are run. The sample formatter prints
  \<^verbatim>\<open>null\<close> in italics, as a formatter for display may, and every other value as
  its text.
\<close>

definition sample_formatter :: formatter where
  "sample_formatter f v p = (if v = JNull then Some ''<i>null</i>'' else Some (toString v))"

definition sample_fields :: "FieldInfo list" where
  "sample_fields =
     [\<lparr>name = ''id'', display_type = ''int4'', format = ''text''\<rparr>,
      \<lparr>name = ''note'', display_type = ''text'', format = ''text''\<rparr>]"

definition sample_rows :: "jsval list list" where
  "sample_rows = [[JNum 7, JNull], [JNum 9, JStr ''a < b'']]"

definition sample_result :: "string \<Rightarrow> QueryResults" where
  "sample_result c =
     \<lparr>command = c, rowCount = 2, result_fields = Some sample_fields, rows = Some sample_rows,
      message = None\<rparr>"

definition sample_message :: QueryResults where
  "sample_message =
     \<lparr>command = ''ext-message'', rowCount = 0, result_fields = None, rows = None,
      message = Some ''Query executed''\<rparr>"

definition sample_batch :: "QueryResults list" where
  "sample_batch = [sample_result ''SELECT'', sample_message, sample_result ''CREATE'']"

definition sample_fragments :: "string list" where
  "sample_fragments =
     [getRowCountResult 2 ''returned'' ''select'' @ ''<table>'' @ table_head sample_fields @
        table_body sample_formatter sample_fields sample_rows @ ''</table>'',
      generateMessage sample_message,
      getRowCountResult 2 ''created'' ''create'']"

definition sample_plan :: QueryResults where
  "sample_plan =
     \<lparr>command = ''EXPLAIN'', rowCount = 2, result_fields = Some [],
      rows = Some [[JStr ''Seq Scan on t''], [JStr ''  Filter: (a < 5)'']], message = None\<rparr>"

definition sample_vacuum :: QueryResults where
  "sample_vacuum =
     \<lparr>command = ''VACUUM'', rowCount = 0, result_fields = None, rows = Some [[JNum 7, JNull]],
      message = None\<rparr>"

definition sample_table :: string where
  "sample_table =
     ''<table><thead><tr><th></th>'' @
     ''<th><div class=\"field-name\">id</div><div class=\"field-type\">int4</div></th>'' @
     ''<th><div class=\"field-name\">note</div><div class=\"field-type\">text</div></th>'' @
     ''</tr></thead><tbody>'' @
     ''<tr><th class=\"row-header\">1</th><td class=\"text-field\">7</td><td class=\"text-field\"><i>null</i></td></tr>'' @
     ''<tr><th class=\"row-header\">2</th><td class=\"text-field\">9</td><td class=\"text-field\">a < b</td></tr>'' @
     ''</tbody></table>''"

definition sample_state :: jsval where
  "sample_state = JObj [(''sort'', JStr ''a\"b''), (''page'', JNum 3)]"

definition sample_state_text :: string where
  "sample_state_text = ''{\"sort\":\"a'' @ [CHR 0x5C] @ ''\"b\",\"page\":3}''"

definition sample_deserialize :: "string \<Rightarrow> jsval option" where
  "sample_deserialize s = (if s = sample_state_text then Some sample_state else None)"

lemmas sample_defs = sample_formatter_def sample_fields_def sample_rows_def sample_result_def

section \<open>Counting occurrences\<close>

lemma prefix_stop:
  assumes "prefix p (a @ c # b)" "c \<notin> set p"
  shows "prefix p a"
proof -
  from assms(1) have "prefix p a \<or> (\<exists>us. p = a @ us \<and> prefix us (c # b))"
    by (simp add: prefix_append)
  then show ?thesis
  proof
    assume "prefix p a" then show ?thesis .
  next
    assume "\<exists>us. p = a @ us \<and> prefix us (c # b)"
    then obtain us where us: "p = a @ us" "prefix us (c # b)" by blast
    show ?thesis
    proof (cases us)
      case Nil
      with us show ?thesis by simp
    next
      case (Cons u us')
      with us have "u = c" by simp
      with Cons us assms(2) show ?thesis by simp
    qed
  qed
qed

lemma occurrences_append:
  assumes "p \<noteq> []" "c \<notin> set (tl p)"
  shows "occurrences p (a @ c # b) = occurrences p a + occurrences p (c # b)"
proof (induction a)
  case Nil
  then show ?case by simp
next
  case (Cons x a)
  have "prefix p (x # a @ c # b) \<longleftrightarrow> prefix p (x # a)"
  proof
    assume h: "prefix p (x # a @ c # b)"
    from assms obtain y q where p: "p = y # q" and cq: "c \<notin> set q" by (cases p) auto
    from h p have "y = x" "prefix q (a @ c # b)" by simp_all
    with cq have "prefix q a" by (blast intro: prefix_stop)
    with p \<open>y = x\<close> show "prefix p (x # a)" by simp
  next
    assume "prefix p (x # a)"
    then have "prefix p ((x # a) @ (c # b))" by (rule prefix_prefix)
    then show "prefix p (x # a @ c # b)" by simp
  qed
  with Cons show ?case by simp
qed

lemma occurrences_append_Nil_or:
  assumes "p \<noteq> []" "b = [] \<or> hd b \<notin> set (tl p)"
  shows "occurrences p (a @ b) = occurrences p a + occurrences p b"
proof (cases b)
  case Nil then show ?thesis by simp
next
  case (Cons c b')
  with assms show ?thesis by (simp add: occurrences_append)
qed

lemma occurrences_none:
  assumes "p \<noteq> []" "hd p \<notin> set s"
  shows "occurrences p s = 0"
proof -
  from assms(1) obtain y q where p: "p = y # q" by (cases p) auto
  from assms(2) show ?thesis unfolding p by (induction s) auto
qed

subsection \<open>Numbers print as digits\<close>

lemma show_nat_digits: "set (show_nat n) \<subseteq> set ''0123456789''"
proof (induction n rule: show_nat.induct)
  case (1 n)
  have d: "digit_char (k mod 10) \<in> set ''0123456789''" for k
    unfolding digit_char_def by (rule nth_mem) simp
  show ?case
  proof (cases "n < 10")
    case True
    with d [of n] show ?thesis by (subst show_nat.simps) simp
  next
    case False
    with 1 d [of n] show ?thesis by (subst show_nat.simps) simp
  qed
qed

lemma show_nat_other:
  assumes "c \<notin> set ''0123456789''"
  shows "c \<notin> set (show_nat n)"
  using assms show_nat_digits [of n] by blast

lemma show_int_other:
  assumes "c \<notin> set ''0123456789''" "c \<noteq> CHR ''-''"
  shows "c \<notin> set (show_int i)"
  using assms show_nat_other [of c] by (simp add: show_int_def)

lemma show_nat_no_lt: "CHR ''<'' \<notin> set (show_nat n)"
  using show_nat_digits [of n] by auto

lemma show_int_no_lt: "CHR ''<'' \<notin> set (show_int i)"
  by (simp add: show_int_def show_nat_no_lt)

lemma show_int_no_quote: "CHR 0x22 \<notin> set (show_int i)"
  by (rule show_int_other) simp_all

lemma show_int_no_u: "CHR ''u'' \<notin> set (show_int i)"
  by (rule show_int_other) simp_all

lemma occurrences_show_nat [simp]:
  "occurrences (CHR ''<'' # q) (show_nat n) = 0"
  by (rule occurrences_none) (simp_all add: show_nat_no_lt)

lemma occurrences_show_int [simp]:
  "occurrences (CHR ''<'' # q) (show_int n) = 0"
  by (rule occurrences_none) (simp_all add: show_int_no_lt)

section \<open>Counting tags\<close>

lemma upper_char_simps [simp]:
  "upper_char CHR ''a'' = CHR ''A''" "upper_char CHR ''b'' = CHR ''B''"
  "upper_char CHR ''c'' = CHR ''C''" "upper_char CHR ''d'' = CHR ''D''"
  "upper_char CHR ''e'' = CHR ''E''" "upper_char CHR ''f'' = CHR ''F''"
  "upper_char CHR ''g'' = CHR ''G''" "upper_char CHR ''h'' = CHR ''H''"
  "upper_char CHR ''i'' = CHR ''I''" "upper_char CHR ''l'' = CHR ''L''"
  "upper_char CHR ''n'' = CHR ''N''" "upper_char CHR ''o'' = CHR ''O''"
  "upper_char CHR ''p'' = CHR ''P''" "upper_char CHR ''r'' = CHR ''R''"
  "upper_char CHR ''t'' = CHR ''T''" "upper_char CHR ''u'' = CHR ''U''"
  "upper_char CHR ''y'' = CHR ''Y''" "upper_char CHR ''/'' = CHR ''/''"
  by (simp_all add: upper_char_def)

lemma name_matches_cut:
  assumes "name_matches nm (a @ b)"
    and "b = [] \<or> (hd b \<notin> set nm \<and> hd b \<notin> upper_char ` set nm)"
  shows "name_matches nm a"
  using assms
proof (induction nm arbitrary: a)
  case Nil
  then show ?case by (cases a) simp_all
next
  case (Cons n nm)
  show ?case
  proof (cases a)
    case Nil
    with Cons.prems show ?thesis by (cases b) auto
  next
    case (Cons c a')
    with Cons.prems Cons.IH [of a'] show ?thesis by auto
  qed
qed

lemma tag_count_data:
  assumes "tag_count nm d = 0"
    and "b = [] \<or> (hd b \<notin> set nm \<and> hd b \<notin> upper_char ` set nm)"
  shows "tag_count nm (d @ b) = tag_count nm b"
  using assms(1)
proof (induction d)
  case Nil
  then show ?case by simp
next
  case (Cons x d)
  from Cons.prems have no: "\<not> opens_tag nm (x # d)" and rest: "tag_count nm d = 0"
    by (auto split: if_splits)
  have "\<not> opens_tag nm (x # d @ b)"
  proof
    assume "opens_tag nm (x # d @ b)"
    then have "x = CHR ''<''" and "name_matches nm (d @ b)"
      by (simp_all add: opens_tag_def)
    with name_matches_cut [OF _ assms(2)] have "opens_tag nm (x # d)"
      by (simp add: opens_tag_def)
    with no show False ..
  qed
  with Cons.IH [OF rest] show ?case by simp
qed

lemma tag_count_data_Cons:
  assumes "tag_count nm d = 0" and "c \<notin> set nm" and "c \<notin> upper_char ` set nm"
  shows "tag_count nm (d @ c # b) = tag_count nm (c # b)"
  by (rule tag_count_data) (use assms in simp_all)

lemma tag_count_no_lt:
  assumes "CHR ''<'' \<notin> set s"
  shows "tag_count nm s = 0"
  using assms by (induction s) (auto simp: opens_tag_def)

lemma tag_count_examples:
  "tag_count ''table'' ''<table><thead><TABLE ><tablet><Table/></table>'' = 3"
  "tag_count ''/pre'' ''<pre>a</pre></PRE ></prex>'' = 2"
  "tag_count ''hr'' ''<hr class=\"result-divider\" /><HR><hr'' = 3"
  by (simp_all add: opens_tag_def tag_end_def)

section \<open>The loops of the table\<close>

lemma header_loop_eq: "header_loop html fs = html @ concat (map header_cell fs)"
  by (induction fs arbitrary: html) (simp_all add: header_cell_def)

lemma cells_loop_eq:
  "cells_loop fmt row html idx fs =
     html @ concat (map (\<lambda>i. data_cell fmt (fs ! i) (row_at row (idx + i))) [0..<length fs])"
proof (induction fs arbitrary: html idx)
  case Nil
  then show ?case by simp
next
  case (Cons f fs)
  have "map (\<lambda>i. data_cell fmt ((f # fs) ! i) (row_at row (idx + i))) [0..<length (f # fs)] =
        data_cell fmt f (row_at row idx) #
        map (\<lambda>i. data_cell fmt (fs ! i) (row_at row (idx + 1 + i))) [0..<length fs]"
    by (simp add: upt_conv_Cons map_Suc_upt [symmetric] del: upt_Suc)
  then show ?case
    by (simp add: Cons.IH data_cell_def cell_text_def del: upt_Suc)
qed

lemma rows_loop_eq:
  "rows_loop fmt fs html k rws =
     (html @ concat (map (\<lambda>i. body_row fmt fs (k + i) (rws ! i)) [0..<length rws]), k + length rws)"
proof (induction rws arbitrary: html k)
  case Nil
  then show ?case by simp
next
  case (Cons row rws)
  have "map (\<lambda>i. body_row fmt fs (k + i) ((row # rws) ! i)) [0..<length (row # rws)] =
        body_row fmt fs k row # map (\<lambda>i. body_row fmt fs (k + 1 + i) (rws ! i)) [0..<length rws]"
    by (simp add: upt_conv_Cons map_Suc_upt [symmetric] del: upt_Suc)
  then show ?case
    by (simp add: Cons.IH body_row_def row_cells_def cells_loop_eq Let_def del: upt_Suc)
qed

lemma generateSelectTableResult_eq:
  assumes "result_fields r = Some fs"
  shows "generateSelectTableResult fmt r =
           Inr (''<table>'' @ table_head fs @
                table_body fmt fs (case rows r of None \<Rightarrow> [] | Some rws \<Rightarrow> rws) @ ''</table>'')"
  using assms
  by (simp add: generateSelectTableResult_def Let_def header_loop_eq rows_loop_eq table_head_def
      table_body_def split: option.split)

lemma table_body_empty: "table_body fmt fs [] = ''<tbody></tbody>''"
  by (simp add: table_body_def)

subsection \<open>Tags of a table whose data is free of markup\<close>

lemma free_of_table_tags:
  assumes "free_of table_tags s"
  shows "tag_count ''table'' s = 0" "tag_count ''/table'' s = 0"
    "tag_count ''th'' s = 0" "tag_count ''/th'' s = 0"
    "tag_count ''tr'' s = 0" "tag_count ''/tr'' s = 0"
  using assms by (simp_all add: free_of_def table_tags_def table_elements_def)

lemmas tag_simps = tag_count_data_Cons opens_tag_def tag_end_def

lemma header_cell_tags:
  assumes "free_of table_tags (name f)" "free_of table_tags (display_type f)"
  shows "tag_count ''table'' (header_cell f @ X) = tag_count ''table'' X"
    "tag_count ''/table'' (header_cell f @ X) = tag_count ''/table'' X"
    "tag_count ''th'' (header_cell f @ X) = 1 + tag_count ''th'' X"
    "tag_count ''/th'' (header_cell f @ X) = 1 + tag_count ''/th'' X"
    "tag_count ''tr'' (header_cell f @ X) = tag_count ''tr'' X"
    "tag_count ''/tr'' (header_cell f @ X) = tag_count ''/tr'' X"
  using free_of_table_tags [OF assms(1)] free_of_table_tags [OF assms(2)]
  by (simp_all add: header_cell_def tag_simps)

lemma data_cell_tags:
  assumes "free_of table_tags (format f)" "free_of table_tags (cell_text (fmt f v False))"
  shows "tag_count ''table'' (data_cell fmt f v @ X) = tag_count ''table'' X"
    "tag_count ''/table'' (data_cell fmt f v @ X) = tag_count ''/table'' X"
    "tag_count ''tr'' (data_cell fmt f v @ X) = tag_count ''tr'' X"
    "tag_count ''/tr'' (data_cell fmt f v @ X) = tag_count ''/tr'' X"
  using free_of_table_tags [OF assms(1)] free_of_table_tags [OF assms(2)]
  by (simp_all add: data_cell_def tag_simps)

lemma header_cells_tags:
  assumes "list_all (\<lambda>f. free_of table_tags (name f) \<and> free_of table_tags (display_type f)) fs"
  shows "tag_count ''table'' (concat (map header_cell fs) @ X) = tag_count ''table'' X"
    "tag_count ''/table'' (concat (map header_cell fs) @ X) = tag_count ''/table'' X"
    "tag_count ''th'' (concat (map header_cell fs) @ X) = length fs + tag_count ''th'' X"
    "tag_count ''/th'' (concat (map header_cell fs) @ X) = length fs + tag_count ''/th'' X"
    "tag_count ''tr'' (concat (map header_cell fs) @ X) = tag_count ''tr'' X"
    "tag_count ''/tr'' (concat (map header_cell fs) @ X) = tag_count ''/tr'' X"
  using assms by (induction fs) (simp_all add: header_cell_tags)

lemma table_head_tags:
  assumes "list_all (\<lambda>f. free_of table_tags (name f) \<and> free_of table_tags (display_type f)) fs"
  shows "tag_count ''table'' (table_head fs @ X) = tag_count ''table'' X"
    "tag_count ''/table'' (table_head fs @ X) = tag_count ''/table'' X"
    "tag_count ''th'' (table_head fs) = length fs + 1"
    "tag_count ''/th'' (table_head fs) = length fs + 1"
    "tag_count ''tr'' (table_head fs) = 1"
    "tag_count ''/tr'' (table_head fs) = 1"
  by (simp_all add: table_head_def header_cells_tags [OF assms] opens_tag_def tag_end_def)

lemma data_cells_tags:
  assumes "list_all (clean_cell fmt fs row) js"
  shows "tag_count ''table'' (concat (map (\<lambda>i. data_cell fmt (fs ! i) (row_at row i)) js) @ X) =
           tag_count ''table'' X"
    "tag_count ''/table'' (concat (map (\<lambda>i. data_cell fmt (fs ! i) (row_at row i)) js) @ X) =
           tag_count ''/table'' X"
    "tag_count ''tr'' (concat (map (\<lambda>i. data_cell fmt (fs ! i) (row_at row i)) js) @ X) =
           tag_count ''tr'' X"
    "tag_count ''/tr'' (concat (map (\<lambda>i. data_cell fmt (fs ! i) (row_at row i)) js) @ X) =
           tag_count ''/tr'' X"
  using assms by (induction js) (simp_all add: data_cell_tags clean_cell_def)

lemma body_row_tags:
  assumes "list_all (clean_cell fmt fs row) [0..<length fs]"
  shows "tag_count ''table'' (body_row fmt fs k row @ X) = tag_count ''table'' X"
    "tag_count ''/table'' (body_row fmt fs k row @ X) = tag_count ''/table'' X"
    "tag_count ''tr'' (body_row fmt fs k row @ X) = 1 + tag_count ''tr'' X"
    "tag_count ''/tr'' (body_row fmt fs k row @ X) = 1 + tag_count ''/tr'' X"
proof -
  have n: "tag_count nm (show_nat k) = 0" for nm
    by (rule tag_count_no_lt) (rule show_nat_no_lt)
  show "tag_count ''table'' (body_row fmt fs k row @ X) = tag_count ''table'' X"
    "tag_count ''/table'' (body_row fmt fs k row @ X) = tag_count ''/table'' X"
    "tag_count ''tr'' (body_row fmt fs k row @ X) = 1 + tag_count ''tr'' X"
    "tag_count ''/tr'' (body_row fmt fs k row @ X) = 1 + tag_count ''/tr'' X"
    by (simp_all add: body_row_def row_cells_def n tag_simps data_cells_tags [OF assms])
qed

lemma body_rows_tags:
  assumes "list_all (\<lambda>j. list_all (clean_cell fmt fs (rws ! j)) [0..<length fs]) js"
  shows "tag_count ''table'' (concat (map (\<lambda>j. body_row fmt fs (g j) (rws ! j)) js) @ X) =
           tag_count ''table'' X"
    "tag_count ''/table'' (concat (map (\<lambda>j. body_row fmt fs (g j) (rws ! j)) js) @ X) =
           tag_count ''/table'' X"
    "tag_count ''tr'' (concat (map (\<lambda>j. body_row fmt fs (g j) (rws ! j)) js) @ X) =
           length js + tag_count ''tr'' X"
    "tag_count ''/tr'' (concat (map (\<lambda>j. body_row fmt fs (g j) (rws ! j)) js) @ X) =
           length js + tag_count ''/tr'' X"
  using assms by (induction js) (simp_all add: body_row_tags)

lemma table_markup_free_fields:
  assumes "table_markup_free fmt fs rws"
  shows "list_all (\<lambda>f. free_of table_tags (name f) \<and> free_of table_tags (display_type f)) fs"
  using assms by (auto simp: table_markup_free_def list_all_iff)

lemma table_markup_free_rows:
  assumes "table_markup_free fmt fs rws"
  shows "list_all (\<lambda>j. list_all (clean_cell fmt fs (rws ! j)) [0..<length fs]) [0..<length rws]"
  using assms by (auto simp: table_markup_free_def list_all_iff clean_cell_def)

lemma table_body_tags:
  assumes "table_markup_free fmt fs rws"
  shows "tag_count ''table'' (table_body fmt fs rws @ X) = tag_count ''table'' X"
    "tag_count ''/table'' (table_body fmt fs rws @ X) = tag_count ''/table'' X"
    "tag_count ''tr'' (table_body fmt fs rws) = length rws"
    "tag_count ''/tr'' (table_body fmt fs rws) = length rws"
  by (simp_all add: table_body_def body_rows_tags [OF table_markup_free_rows [OF assms]]
      opens_tag_def tag_end_def)

lemma getRowCountResult_free:
  assumes "CHR ''<'' \<notin> set verb" "CHR ''<'' \<notin> set cls"
  shows "free_of table_tags (getRowCountResult rc verb cls)"
proof -
  have n: "tag_count nm (show_int rc) = 0" "tag_count nm verb = 0" "tag_count nm cls = 0" for nm
    using assms by (simp_all add: tag_count_no_lt show_int_no_lt)
  show ?thesis
    by (simp add: free_of_def table_tags_def table_elements_def getRowCountResult_def n tag_simps)
qed

lemma getRowCountResult_tags:
  assumes "CHR ''<'' \<notin> set verb" "CHR ''<'' \<notin> set cls"
  shows "tag_count ''table'' (getRowCountResult rc verb cls @ X) = tag_count ''table'' X"
    "tag_count ''/table'' (getRowCountResult rc verb cls @ X) = tag_count ''/table'' X"
proof -
  have n: "tag_count nm (show_int rc) = 0" "tag_count nm verb = 0" "tag_count nm cls = 0" for nm
    using assms by (simp_all add: tag_count_no_lt show_int_no_lt)
  show "tag_count ''table'' (getRowCountResult rc verb cls @ X) = tag_count ''table'' X"
    "tag_count ''/table'' (getRowCountResult rc verb cls @ X) = tag_count ''/table'' X"
    by (simp_all add: getRowCountResult_def n tag_simps)
qed

lemma sample_markup_free: "table_markup_free sample_formatter sample_fields sample_rows"
  by (simp add: sample_defs table_markup_free_def free_of_def table_tags_def table_elements_def
      cell_text_def row_at_def opens_tag_def tag_end_def show_int_def show_nat.simps digit_char_def)

lemma getRowCountResult_no_tag:
  assumes "CHR ''<'' \<notin> set txt" "CHR ''<'' \<notin> set preClass"
  shows "occurrences ''<t'' (getRowCountResult rc txt preClass @ rest) = occurrences ''<t'' rest"
proof -
  have a: "occurrences ''<t'' txt = 0" "occurrences ''<t'' preClass = 0"
    using assms by (simp_all add: occurrences_none)
  show ?thesis
    by (simp add: getRowCountResult_def occurrences_append a)
qed

section \<open>The dispatcher and its loop\<close>

lemma has_fields_and_rows_iff:
  "has_fields_and_rows r \<longleftrightarrow>
     \<not> (result_fields r = None \<or> result_fields r = Some [] \<or> rows r = None \<or> rows r = Some [])"
  by (auto simp: has_fields_and_rows_def split: option.splits)

lemma switch_command_modify:
  assumes "(command r = ''INSERT'' \<and> verb = ''inserted'' \<and> cls = ''insert'') \<or>
           (command r = ''UPDATE'' \<and> verb = ''updated'' \<and> cls = ''update'') \<or>
           (command r = ''DELETE'' \<and> verb = ''deleted'' \<and> cls = ''delete'')"
  shows "switch_command fmt r =
           (if has_fields_and_rows r
            then (case generateSelectTableResult fmt r of
                    Inl e \<Rightarrow> Inl e
                  | Inr t \<Rightarrow> Inr (getRowCountResult (rowCount r) verb cls @ t))
            else Inr (getRowCountResult (rowCount r) verb cls))"
  using assms
  by (auto simp: switch_command_def generateInsertResults_def generateUpdateResults_def
      generateDeleteResults_def Let_def)

lemma switch_command_message:
  "command r = ''ext-message'' \<Longrightarrow> switch_command fmt r = Inr (generateMessage r)"
  by (simp add: switch_command_def)

lemma switch_command_create:
  "command r = ''CREATE'' \<Longrightarrow> switch_command fmt r = Inr (generateCreateResults r)"
  by (simp add: switch_command_def)

lemma switch_command_explain:
  "command r = ''EXPLAIN'' \<Longrightarrow> switch_command fmt r = generateExplainResult r"
  by (simp add: switch_command_def)

lemma switch_command_select:
  "command r = ''SELECT'' \<Longrightarrow> switch_command fmt r = generateSelectResult fmt r"
  by (simp add: switch_command_def)

lemma switch_command_generic:
  "command r \<notin> {''ext-message'', ''INSERT'', ''UPDATE'', ''CREATE'', ''DELETE'', ''EXPLAIN'', ''SELECT''}
   \<Longrightarrow> switch_command fmt r = Inr (generateGenericResult r)"
  by (simp add: switch_command_def)

lemma switch_command_cases:
  "switch_command fmt r \<in>
     {Inr (generateMessage r), generateInsertResults fmt r, generateUpdateResults fmt r,
      Inr (generateCreateResults r), generateDeleteResults fmt r, generateExplainResult r,
      generateSelectResult fmt r, Inr (generateGenericResult r)}"
  by (simp add: switch_command_def)

lemma generateSelectResult_eq:
  assumes "result_fields r = Some fs"
  shows "generateSelectResult fmt r =
           Inr (getRowCountResult (rowCount r) ''returned'' ''select'' @
                ''<table>'' @ table_head fs @
                table_body fmt fs (case rows r of None \<Rightarrow> [] | Some rws \<Rightarrow> rws) @ ''</table>'')"
  by (simp add: generateSelectResult_def generateSelectTableResult_eq [OF assms])

lemma array_join_Cons: "array_join d (f # fs) = f @ concat (map (\<lambda>g. d @ g) fs)"
  by (induction fs arbitrary: f) simp_all

lemma array_join_last:
  assumes "fs \<noteq> []"
  shows "suffix (last fs) (array_join d fs)"
proof -
  from assms obtain f fs' where fs: "fs = f # fs'" by (cases fs) auto
  show ?thesis unfolding fs
  proof (induction fs' arbitrary: f)
    case Nil
    then show ?case by simp
  next
    case (Cons g gs)
    have "suffix (last (g # gs)) ((f @ d) @ array_join d (g # gs))"
      using Cons [of g] by (rule suffix_appendI)
    then show ?case by simp
  qed
qed

lemma array_join_mid: "\<exists>a b. array_join d (xs @ f # ys) = a @ f @ b"
proof (cases xs)
  case Nil
  have "array_join d (f # ys) = [] @ f @ concat (map (\<lambda>g. d @ g) ys)"
    by (simp add: array_join_Cons)
  with Nil show ?thesis by auto
next
  case (Cons x xs')
  have "array_join d (xs @ f # ys) =
        (x @ concat (map (\<lambda>g. d @ g) xs') @ d) @ f @ concat (map (\<lambda>g. d @ g) ys)"
    by (simp add: Cons array_join_Cons)
  then show ?thesis by blast
qed

lemma results_loop_eq:
  assumes "map (switch_command fmt) rs = map Inr fs"
  shows "results_loop fmt html first rs =
           Inr (html @ (if first then array_join divider fs else concat (map (\<lambda>g. divider @ g) fs)))"
  using assms
proof (induction rs arbitrary: html first fs)
  case Nil
  then show ?case by simp
next
  case (Cons r rs)
  from Cons.prems obtain f fs' where fs: "fs = f # fs'" and f: "switch_command fmt r = Inr f"
    and rest: "map (switch_command fmt) rs = map Inr fs'"
    by (cases fs) auto
  show ?case
    by (simp add: fs f Cons.IH [OF rest] array_join_Cons)
qed

lemma results_loop_Inr:
  assumes "results_loop fmt html first rs = Inr out"
  shows "\<exists>fs. map (switch_command fmt) rs = map Inr fs"
  using assms
proof (induction rs arbitrary: html first)
  case Nil
  then show ?case by simp
next
  case (Cons r rs)
  from Cons.prems obtain f where f: "switch_command fmt r = Inr f"
    by (cases "switch_command fmt r") simp_all
  with Cons.prems obtain h where "results_loop fmt h False rs = Inr out"
    by (simp add: Let_def)
  from Cons.IH [OF this] obtain fs where "map (switch_command fmt) rs = map Inr fs" by blast
  with f have "map (switch_command fmt) (r # rs) = map Inr (f # fs)" by simp
  then show ?case by blast
qed

lemma getResultsTables_eq:
  assumes "map (switch_command fmt) rs = map Inr fs"
  shows "getResultsTables fmt rs = Inr (array_join divider fs)"
  by (simp add: getResultsTables_def results_loop_eq [OF assms])

lemma getResultsTables_Nil: "getResultsTables fmt [] = Inr []"
  by (simp add: getResultsTables_def)

lemma fragment_in_output:
  assumes "getResultsTables fmt rs = Inr out" and "r \<in> set rs" and "switch_command fmt r = Inr f"
  shows "\<exists>a b. out = a @ f @ b"
proof -
  from assms(1) obtain fs where fs: "map (switch_command fmt) rs = map Inr fs"
    unfolding getResultsTables_def by (blast dest: results_loop_Inr)
  from getResultsTables_eq [OF fs] assms(1) have out: "out = array_join divider fs" by simp
  from assms(2) obtain xs ys where rs: "rs = xs @ r # ys" by (auto dest: split_list)
  from fs rs have "map Inr fs = map (switch_command fmt) xs @ switch_command fmt r # map (switch_command fmt) ys"
    by simp
  then obtain us v ws where "fs = us @ v # ws" and "Inr v = switch_command fmt r"
    by (auto simp: map_eq_append_conv map_eq_Cons_conv)
  with assms(3) have "fs = us @ f # ws" by simp
  with out array_join_mid [of divider us f ws] show ?thesis by auto
qed

subsection \<open>Every fragment opens a pre block and closes a pre block or a table\<close>

lemma table_ends:
  assumes "generateSelectTableResult fmt r = Inr t"
  shows "suffix ''</table>'' t"
proof (cases "result_fields r")
  case None
  with assms show ?thesis by (simp add: generateSelectTableResult_def)
next
  case (Some fs)
  from assms show ?thesis
    unfolding generateSelectTableResult_eq [OF Some]
    by (auto simp: suffix_def)
qed

lemma getRowCountResult_starts: "prefix ''<pre '' (getRowCountResult rc txt cls @ rest)"
  by (simp add: getRowCountResult_def)

lemma getRowCountResult_ends: "suffix ''</pre>'' (getRowCountResult rc txt cls)"
  by (simp add: getRowCountResult_def suffix_def)

lemma with_table_shape:
  assumes "(case generateSelectTableResult fmt r of Inl e \<Rightarrow> Inl e
            | Inr t \<Rightarrow> Inr (getRowCountResult rc txt cls @ t)) = Inr f"
  shows "prefix ''<pre '' f \<and> suffix ''</table>'' f"
proof -
  from assms obtain t where t: "generateSelectTableResult fmt r = Inr t"
    and f: "f = getRowCountResult rc txt cls @ t"
    by (cases "generateSelectTableResult fmt r") auto
  from table_ends [OF t] have "suffix ''</table>'' f"
    unfolding f by (rule suffix_appendI)
  with f show ?thesis by (simp add: getRowCountResult_starts)
qed

lemma modify_shape:
  assumes "(if has_fields_and_rows r
            then (case generateSelectTableResult fmt r of
                    Inl e \<Rightarrow> Inl e
                  | Inr t \<Rightarrow> Inr (getRowCountResult rc txt cls @ t))
            else Inr (getRowCountResult rc txt cls)) = Inr f"
  shows "prefix ''<pre '' f \<and> (suffix ''</pre>'' f \<or> suffix ''</table>'' f)"
proof (cases "has_fields_and_rows r")
  case True
  with assms with_table_shape show ?thesis by auto
next
  case False
  with assms have "f = getRowCountResult rc txt cls" by simp
  then show ?thesis
    using getRowCountResult_starts [of _ _ _ "[]"] by (simp add: getRowCountResult_ends)
qed

lemma fragment_shape:
  assumes "switch_command fmt r = Inr f"
  shows "prefix ''<pre '' f \<and> (suffix ''</pre>'' f \<or> suffix ''</table>'' f)"
proof -
  from switch_command_cases [of fmt r] assms
  consider (msg) "f = generateMessage r" | (gen) "f = generateGenericResult r"
    | (create) "f = generateCreateResults r"
    | (explain) "generateExplainResult r = Inr f"
    | (ins) "generateInsertResults fmt r = Inr f"
    | (upd) "generateUpdateResults fmt r = Inr f"
    | (del) "generateDeleteResults fmt r = Inr f"
    | (sel) "generateSelectResult fmt r = Inr f"
    by auto
  then show ?thesis
  proof cases
    case msg
    then show ?thesis by (simp add: generateMessage_def suffix_def)
  next
    case gen
    then show ?thesis by (simp add: generateGenericResult_def suffix_def)
  next
    case create
    then show ?thesis
      using getRowCountResult_starts [of _ _ _ "[]"]
      by (simp add: generateCreateResults_def getRowCountResult_ends)
  next
    case explain
    then show ?thesis
      by (auto simp: generateExplainResult_def suffix_def split: option.splits)
  next
    case ins
    then show ?thesis
      unfolding generateInsertResults_def Let_def by (rule modify_shape)
  next
    case upd
    then show ?thesis
      unfolding generateUpdateResults_def Let_def by (rule modify_shape)
  next
    case del
    then show ?thesis
      unfolding generateDeleteResults_def Let_def by (rule modify_shape)
  next
    case sel
    then show ?thesis
      unfolding generateSelectResult_def Let_def using with_table_shape by blast
  qed
qed

lemma fragment_not_empty:
  assumes "switch_command fmt r = Inr f"
  shows "f \<noteq> []"
  using fragment_shape [OF assms] by auto

subsection \<open>Which results render\<close>

lemma QueryResults_object_dump: "\<exists>dump. JSON_stringify (QueryResults_object r) = Some dump"
  by (simp add: QueryResults_object_def)

lemma generateExplainResult_total:
  assumes "rows r \<noteq> None"
  shows "\<exists>f. generateExplainResult r = Inr f"
  using assms by (auto simp: generateExplainResult_def)

lemma generateSelectResult_total:
  assumes "result_fields r \<noteq> None"
  shows "\<exists>f. generateSelectResult fmt r = Inr f"
  using assms by (auto simp: generateSelectResult_def generateSelectTableResult_eq)

lemma modify_total:
  "\<exists>f. (if has_fields_and_rows r
         then (case generateSelectTableResult fmt r of
                 Inl e \<Rightarrow> Inl e
               | Inr t \<Rightarrow> Inr (getRowCountResult rc verb cls @ t))
         else Inr (getRowCountResult rc verb cls)) = Inr f"
proof (cases "has_fields_and_rows r")
  case True
  then obtain fs where "result_fields r = Some fs"
    by (auto simp: has_fields_and_rows_def split: option.splits)
  with True show ?thesis by (simp add: generateSelectTableResult_eq)
next
  case False
  then show ?thesis by simp
qed

lemma switch_command_total:
  assumes "\<not> (command r = ''SELECT'' \<and> result_fields r = None)"
    and "\<not> (command r = ''EXPLAIN'' \<and> rows r = None)"
  shows "\<exists>f. switch_command fmt r = Inr f"
proof -
  consider (sel) "command r = ''SELECT''" | (exp) "command r = ''EXPLAIN''"
    | (ins) "command r = ''INSERT''" | (upd) "command r = ''UPDATE''"
    | (del) "command r = ''DELETE''"
    | (other) "command r \<notin> {''SELECT'', ''EXPLAIN'', ''INSERT'', ''UPDATE'', ''DELETE''}"
    by blast
  then show ?thesis
  proof cases
    case sel
    with assms(1) generateSelectResult_total [of r fmt] show ?thesis
      by (simp add: switch_command_select)
  next
    case exp
    with assms(2) generateExplainResult_total [of r] show ?thesis
      by (simp add: switch_command_explain)
  next
    case ins
    then show ?thesis
      using modify_total [where r = r and fmt = fmt and rc = "rowCount r" and verb = "''inserted''"
          and cls = "''insert''"]
      by (simp add: switch_command_def generateInsertResults_def Let_def)
  next
    case upd
    then show ?thesis
      using modify_total [where r = r and fmt = fmt and rc = "rowCount r" and verb = "''updated''"
          and cls = "''update''"]
      by (simp add: switch_command_def generateUpdateResults_def Let_def)
  next
    case del
    then show ?thesis
      using modify_total [where r = r and fmt = fmt and rc = "rowCount r" and verb = "''deleted''"
          and cls = "''delete''"]
      by (simp add: switch_command_def generateDeleteResults_def Let_def)
  next
    case other
    then show ?thesis by (simp add: switch_command_def)
  qed
qed

subsection \<open>Dividers\<close>

lemma not_suffix_divider:
  assumes "suffix ''</pre>'' s \<or> suffix ''</table>'' s"
  shows "\<not> suffix divider s"
proof
  assume d: "suffix divider s"
  from assms show False
  proof
    assume "suffix ''</pre>'' s"
    with d have "suffix divider ''</pre>'' \<or> suffix ''</pre>'' divider"
      by (rule suffix_same_cases)
    then show False by (simp add: divider_def suffix_to_prefix)
  next
    assume "suffix ''</table>'' s"
    with d have "suffix divider ''</table>'' \<or> suffix ''</table>'' divider"
      by (rule suffix_same_cases)
    then show False by (simp add: divider_def suffix_to_prefix)
  qed
qed

lemma sample_batch_fragments:
  "map (switch_command sample_formatter) sample_batch = map Inr sample_fragments"
proof -
  have "switch_command sample_formatter (sample_result ''SELECT'') = Inr (sample_fragments ! 0)"
    using generateSelectResult_eq [of "sample_result ''SELECT''" sample_fields sample_formatter]
    by (simp add: switch_command_select sample_result_def sample_fragments_def)
  moreover have "switch_command sample_formatter sample_message = Inr (sample_fragments ! 1)"
    by (simp add: switch_command_message sample_message_def sample_fragments_def)
  moreover have "switch_command sample_formatter (sample_result ''CREATE'') = Inr (sample_fragments ! 2)"
    by (simp add: switch_command_create sample_result_def sample_fragments_def generateCreateResults_def)
  ultimately show ?thesis
    by (simp add: sample_batch_def sample_fragments_def)
qed

lemma divider_hr: "tag_count ''hr'' (divider @ X) = 1 + tag_count ''hr'' X"
  by (simp add: divider_def opens_tag_def tag_end_def)

lemma dividers_count:
  assumes "list_all (\<lambda>f. tag_count ''hr'' f = 0) fs"
  shows "tag_count ''hr'' (concat (map (\<lambda>g. divider @ g) fs)) = length fs"
  using assms
proof (induction fs)
  case Nil
  then show ?case by simp
next
  case (Cons f fs)
  let ?rest = "concat (map (\<lambda>g. divider @ g) fs)"
  have "?rest = [] \<or> (hd ?rest \<notin> set ''hr'' \<and> hd ?rest \<notin> upper_char ` set ''hr'')"
    by (cases fs) (simp_all add: divider_def)
  with Cons.prems have "tag_count ''hr'' (f @ ?rest) = tag_count ''hr'' ?rest"
    by (intro tag_count_data) simp_all
  with Cons show ?case by (simp add: divider_hr)
qed

lemma joined_count:
  assumes "list_all (\<lambda>f. tag_count ''hr'' f = 0) fs"
  shows "tag_count ''hr'' (array_join divider fs) = length fs - 1"
proof (cases fs)
  case Nil
  then show ?thesis by simp
next
  case (Cons f fs')
  let ?rest = "concat (map (\<lambda>g. divider @ g) fs')"
  have "?rest = [] \<or> (hd ?rest \<notin> set ''hr'' \<and> hd ?rest \<notin> upper_char ` set ''hr'')"
    by (cases fs') (simp_all add: divider_def)
  with assms Cons have "tag_count ''hr'' (f @ ?rest) = tag_count ''hr'' ?rest"
    by (intro tag_count_data) simp_all
  with assms Cons show ?thesis by (simp add: array_join_Cons dividers_count)
qed

lemma sample_fragments_clean: "list_all (\<lambda>f. tag_count ''hr'' f = 0) sample_fragments"
  by (simp add: sample_fragments_def getRowCountResult_def table_head_def
      table_body_def header_cell_def body_row_def row_cells_def data_cell_def cell_text_def
      row_at_def generateMessage_def sample_message_def sample_defs
      show_int_def show_nat.simps digit_char_def opens_tag_def tag_end_def)

subsection \<open>Lines of a plan\<close>

lemma lines_tags:
  assumes "list_all (\<lambda>t. tag_count nm t = 0) ts"
    and "CHR ''\<newline>'' \<notin> set nm" "CHR ''\<newline>'' \<notin> upper_char ` set nm"
    and "X = [] \<or> (hd X \<notin> set nm \<and> hd X \<notin> upper_char ` set nm)"
  shows "tag_count nm (concat (map (\<lambda>g. CHR ''\<newline>'' # g) ts) @ X) = tag_count nm X"
  using assms(1)
proof (induction ts)
  case Nil
  then show ?case by simp
next
  case (Cons g ts)
  let ?Y = "concat (map (\<lambda>g. CHR ''\<newline>'' # g) ts) @ X"
  have "?Y = [] \<or> (hd ?Y \<notin> set nm \<and> hd ?Y \<notin> upper_char ` set nm)"
    using assms(2-4) by (cases ts) auto
  with Cons.prems have "tag_count nm (g @ ?Y) = tag_count nm ?Y"
    by (intro tag_count_data) simp_all
  moreover have "\<not> opens_tag nm (CHR ''\<newline>'' # g @ ?Y)"
    by (simp add: opens_tag_def)
  ultimately show ?case using Cons by simp
qed

lemma joined_lines_tags:
  assumes "list_all (\<lambda>t. tag_count nm t = 0) ts"
    and "CHR ''\<newline>'' \<notin> set nm" "CHR ''\<newline>'' \<notin> upper_char ` set nm"
    and "X = [] \<or> (hd X \<notin> set nm \<and> hd X \<notin> upper_char ` set nm)"
  shows "tag_count nm (array_join ''\<newline>'' ts @ X) = tag_count nm X"
proof (cases ts)
  case Nil
  then show ?thesis by simp
next
  case (Cons g gs)
  let ?Y = "concat (map (\<lambda>g. CHR ''\<newline>'' # g) gs) @ X"
  have "?Y = [] \<or> (hd ?Y \<notin> set nm \<and> hd ?Y \<notin> upper_char ` set nm)"
    using assms(2-4) by (cases gs) auto
  with assms(1) Cons have "tag_count nm (g @ ?Y) = tag_count nm ?Y"
    by (intro tag_count_data) simp_all
  moreover from assms(1) Cons have "list_all (\<lambda>t. tag_count nm t = 0) gs" by simp
  moreover have "array_join ''\<newline>'' ts @ X = g @ ?Y"
    by (simp add: Cons array_join_Cons)
  ultimately show ?thesis
    using lines_tags [OF _ assms(2-4), of gs] by simp
qed

lemma free_of_iff: "free_of tags s \<longleftrightarrow> (\<forall>nm \<in> set tags. tag_count nm s = 0)"
  by (simp add: free_of_def list_all_iff)

lemma table_tags_stop:
  assumes "nm \<in> set table_tags"
  shows "CHR ''\<newline>'' \<notin> set nm" "CHR ''\<newline>'' \<notin> upper_char ` set nm"
    "CHR ''<'' \<notin> set nm" "CHR ''<'' \<notin> upper_char ` set nm"
  using assms by (auto simp: table_tags_def table_elements_def)

lemma explain_block_table_tags:
  assumes "nm \<in> set table_tags"
  shows "tag_count nm (''<pre class=\"vscode-postgres-result vscode-postgres-result-explain\">'' @ X) =
           tag_count nm X"
    and "tag_count nm ''</pre>'' = 0"
  using assms by (auto simp: table_tags_def table_elements_def opens_tag_def tag_end_def)

lemma explain_block_pre:
  "tag_count ''pre'' (''<pre class=\"vscode-postgres-result vscode-postgres-result-explain\">'' @ X) =
     1 + tag_count ''pre'' X"
  "tag_count ''/pre'' (''<pre class=\"vscode-postgres-result vscode-postgres-result-explain\">'' @ X) =
     tag_count ''/pre'' X"
  by (simp_all add: opens_tag_def tag_end_def)

section \<open>The state attribute\<close>

lemma text_after_head: "text_after ''data-state=\"'' (document_head @ x) = Some x"
  by (simp add: document_head_def)

lemma replace_quotes_no_quote: "CHR 0x22 \<notin> set (replace_quotes s)"
  by (induction s) auto

lemma replace_quotes_id:
  assumes "CHR 0x22 \<notin> set s"
  shows "replace_quotes s = s"
  using assms by (induction s) auto

lemma data_state_document:
  "data_state (document_head @ replace_quotes s @ CHR 0x22 # rest) = Some (replace_quotes s)"
proof -
  have "takeWhile (\<lambda>c. c \<noteq> CHR 0x22) (replace_quotes s @ CHR 0x22 # rest) =
        takeWhile (\<lambda>c. c \<noteq> CHR 0x22) (replace_quotes s)"
    by (rule takeWhile_tail) simp
  also have "\<dots> = replace_quotes s"
    using replace_quotes_no_quote [of s] by (auto simp: takeWhile_eq_all_conv)
  finally show ?thesis by (simp add: data_state_def text_after_head)
qed

lemma embedded_state_eq:
  assumes "getResultsTables fmt results = Inr tables"
    and "JSON_stringify (if truthy state then state else JObj []) = Some s"
  shows "embedded_state (generateResultsHtml pageScript nonce pretty fmt results state) =
           Some (replace_quotes s)"
  using assms data_state_document [of s]
  by (simp add: embedded_state_def generateResultsHtml_def state_attribute_def)

lemma prefix_replace_quotes:
  assumes "CHR 0x22 \<notin> set p" "CHR ''&'' \<notin> set p"
  shows "prefix p (replace_quotes s) \<longleftrightarrow> prefix p s"
  using assms
proof (induction p arbitrary: s)
  case Nil
  then show ?case by simp
next
  case (Cons a p)
  show ?case
  proof (cases s)
    case Nil
    then show ?thesis by simp
  next
    case (Cons c cs)
    with Cons.prems Cons.IH [of cs] show ?thesis by auto
  qed
qed

lemma restore_replace_quotes:
  assumes "occurrences ''&quot;'' s = 0"
  shows "restore_quotes (replace_quotes s) = s"
  using assms
proof (induction s)
  case Nil
  then show ?case by simp
next
  case (Cons c cs)
  from Cons.prems have np: "\<not> prefix ''&quot;'' (c # cs)" and rest: "occurrences ''&quot;'' cs = 0"
    by (auto split: if_splits)
  show ?case
  proof (cases "c = CHR 0x22")
    case True
    with Cons.IH [OF rest] show ?thesis by simp
  next
    case False
    have "\<not> prefix ''&quot;'' (c # replace_quotes cs)"
    proof
      assume "prefix ''&quot;'' (c # replace_quotes cs)"
      then have "c = CHR ''&''" and "prefix ''quot;'' (replace_quotes cs)" by simp_all
      then have "prefix ''quot;'' cs" by (simp add: prefix_replace_quotes)
      with \<open>c = CHR ''&''\<close> np show False by simp
    qed
    with False Cons.IH [OF rest] show ?thesis by simp
  qed
qed

lemma falsy_values:
  "\<not> truthy v \<longleftrightarrow> v \<in> {JUndefined, JNull, JBool False, JNum 0, JNaN, JStr []}"
  by (cases v) auto

lemma falsy_text:
  assumes "\<not> truthy v"
  shows "JSON_stringify v \<noteq> Some ''{}''"
proof (cases v)
  case (JNum i)
  with assms have "JSON_stringify v = Some ''0''"
    by (simp add: show_int_def show_nat.simps digit_char_def)
  then show ?thesis by simp
next
  case (JStr t)
  with assms show ?thesis by (simp add: quoteJSONString_def)
qed (use assms in simp_all)

lemma truthy_text:
  assumes "truthy v" and "JSON_stringify v = Some s"
  shows "replace_quotes s \<noteq> ''undefined'' \<and>
         (replace_quotes s = ''null'' \<longleftrightarrow> v \<in> {JInfinity, JNegInfinity})"
proof (cases v)
  case JUndefined
  with assms(1) show ?thesis by simp
next
  case JNull
  with assms(1) show ?thesis by simp
next
  case (JBool b)
  with assms have "s = ''true''" by simp
  with JBool show ?thesis by simp
next
  case (JNum i)
  note q = show_int_no_quote [of i] and u = show_int_no_u [of i]
  from JNum assms(2) have s: "s = show_int i" by simp
  from u have "show_int i \<noteq> ''undefined''" "show_int i \<noteq> ''null''" by auto
  with s q JNum show ?thesis by (simp add: replace_quotes_id)
next
  case JNaN
  with assms(1) show ?thesis by simp
next
  case JInfinity
  with assms(2) have "s = ''null''" by simp
  with JInfinity show ?thesis by simp
next
  case JNegInfinity
  with assms(2) have "s = ''null''" by simp
  with JNegInfinity show ?thesis by simp
next
  case (JStr t)
  with assms(2) obtain rest where "s = CHR 0x22 # rest"
    by (auto simp: quoteJSONString_def)
  with JStr show ?thesis by simp
next
  case (JArr xs)
  with assms(2) obtain rest where "s = CHR ''['' # rest" by auto
  with JArr show ?thesis by simp
next
  case (JObj kvs)
  with assms(2) obtain rest where "s = CHR ''{'' # rest" by auto
  with JObj show ?thesis by simp
qed

lemma sample_state_stringify: "JSON_stringify sample_state = Some sample_state_text"
  by (simp add: sample_state_def sample_state_text_def quoteJSONString_def quoteJSONChar_def
      show_int_def show_nat.simps digit_char_def)

section \<open>The claims\<close>

subsection \<open>C1: the table of an INSERT, UPDATE or DELETE result\<close>

text \<open>
  Claim C1, with the condition on the data that its counts need. A result whose command is
  INSERT, UPDATE or DELETE (\<open>verb\<close> and \<open>cls\<close> are the generator's word and
  class) renders, when its fields and its rows are both present and not empty, as the
  row-count summary followed by one table: the header, which starts with the empty index
  cell, and the body of the closed form. This holds whatever the data is. When no field
  name, display type or format tag and no formatted cell holds table markup
  (\<open>table_markup_free\<close>), the fragment holds exactly one start tag and one end tag of
  \<^verbatim>\<open>table\<close>, the header holds one row of \<open>length fs + 1\<close> header cells (start
  and end tags of \<^verbatim>\<open>th\<close>), and the body holds \<open>length rws\<close> rows (start and
  end tags of \<^verbatim>\<open>tr\<close>). When the fields or the rows are absent or empty, the fragment
  is the summary alone, and it is free of table markup.
\<close>

theorem modify_result_table:
  assumes "(command r = ''INSERT'' \<and> verb = ''inserted'' \<and> cls = ''insert'') \<or>
           (command r = ''UPDATE'' \<and> verb = ''updated'' \<and> cls = ''update'') \<or>
           (command r = ''DELETE'' \<and> verb = ''deleted'' \<and> cls = ''delete'')"
  shows "(result_fields r = Some fs \<and> rows r = Some rws \<and> fs \<noteq> [] \<and> rws \<noteq> [] \<longrightarrow>
            switch_command fmt r =
              Inr (getRowCountResult (rowCount r) verb cls @
                   ''<table>'' @ table_head fs @ table_body fmt fs rws @ ''</table>'') \<and>
            prefix ''<thead><tr><th></th>'' (table_head fs) \<and>
            (table_markup_free fmt fs rws \<longrightarrow>
               tag_count ''table''
                 (getRowCountResult (rowCount r) verb cls @
                  ''<table>'' @ table_head fs @ table_body fmt fs rws @ ''</table>'') = 1 \<and>
               tag_count ''/table''
                 (getRowCountResult (rowCount r) verb cls @
                  ''<table>'' @ table_head fs @ table_body fmt fs rws @ ''</table>'') = 1 \<and>
               tag_count ''tr'' (table_head fs) = 1 \<and>
               tag_count ''/tr'' (table_head fs) = 1 \<and>
               tag_count ''th'' (table_head fs) = length fs + 1 \<and>
               tag_count ''/th'' (table_head fs) = length fs + 1 \<and>
               tag_count ''tr'' (table_body fmt fs rws) = length rws \<and>
               tag_count ''/tr'' (table_body fmt fs rws) = length rws)) \<and>
         (result_fields r = None \<or> result_fields r = Some [] \<or> rows r = None \<or> rows r = Some [] \<longrightarrow>
            switch_command fmt r = Inr (getRowCountResult (rowCount r) verb cls) \<and>
            free_of table_tags (getRowCountResult (rowCount r) verb cls))"
proof -
  have verb: "CHR ''<'' \<notin> set verb" "CHR ''<'' \<notin> set cls"
    using assms by auto
  have eq: "switch_command fmt r =
      Inr (getRowCountResult (rowCount r) verb cls @
           ''<table>'' @ table_head fs @ table_body fmt fs rws @ ''</table>'')"
    if h: "result_fields r = Some fs \<and> rows r = Some rws \<and> fs \<noteq> [] \<and> rws \<noteq> []"
  proof -
    from h have "has_fields_and_rows r" by (simp add: has_fields_and_rows_iff)
    with h show ?thesis
      by (simp add: switch_command_modify [OF assms] generateSelectTableResult_eq)
  qed
  have pre: "prefix ''<thead><tr><th></th>'' (table_head fs)"
    by (simp add: table_head_def)
  have counts:
    "tag_count ''table''
       (getRowCountResult (rowCount r) verb cls @
        ''<table>'' @ table_head fs @ table_body fmt fs rws @ ''</table>'') = 1 \<and>
     tag_count ''/table''
       (getRowCountResult (rowCount r) verb cls @
        ''<table>'' @ table_head fs @ table_body fmt fs rws @ ''</table>'') = 1 \<and>
     tag_count ''tr'' (table_head fs) = 1 \<and>
     tag_count ''/tr'' (table_head fs) = 1 \<and>
     tag_count ''th'' (table_head fs) = length fs + 1 \<and>
     tag_count ''/th'' (table_head fs) = length fs + 1 \<and>
     tag_count ''tr'' (table_body fmt fs rws) = length rws \<and>
     tag_count ''/tr'' (table_body fmt fs rws) = length rws"
    if free: "table_markup_free fmt fs rws"
  proof -
    note hd = table_head_tags [OF table_markup_free_fields [OF free]]
    note bd = table_body_tags [OF free]
    have "tag_count ''table''
       (getRowCountResult (rowCount r) verb cls @
        ''<table>'' @ table_head fs @ table_body fmt fs rws @ ''</table>'') = 1"
      by (simp add: getRowCountResult_tags(1) [OF verb] hd(1) bd(1) opens_tag_def tag_end_def)
    moreover have "tag_count ''/table''
       (getRowCountResult (rowCount r) verb cls @
        ''<table>'' @ table_head fs @ table_body fmt fs rws @ ''</table>'') = 1"
      by (simp add: getRowCountResult_tags(2) [OF verb] hd(2) bd(2) opens_tag_def tag_end_def)
    ultimately show ?thesis
      using hd(3-6) bd(3,4) by simp
  qed
  have none: "switch_command fmt r = Inr (getRowCountResult (rowCount r) verb cls)"
    if "result_fields r = None \<or> result_fields r = Some [] \<or> rows r = None \<or> rows r = Some []"
  proof -
    from that have "\<not> has_fields_and_rows r" by (simp add: has_fields_and_rows_iff)
    then show ?thesis by (simp add: switch_command_modify [OF assms])
  qed
  from eq pre counts none getRowCountResult_free [OF verb, of "rowCount r"]
  show ?thesis by blast
qed

text \<open>
  The theorem on an INSERT of two fields and two rows, one cell of which is
  \<^verbatim>\<open>null\<close> in italics and one of which holds a comparison sign, and on a DELETE with
  an empty row list.
\<close>

theorem modify_result_table_witness:
  "switch_command sample_formatter (sample_result ''INSERT'') =
     Inr (getRowCountResult 2 ''inserted'' ''insert'' @ ''<table>'' @ table_head sample_fields @
          table_body sample_formatter sample_fields sample_rows @ ''</table>'') \<and>
   tag_count ''table''
     (getRowCountResult 2 ''inserted'' ''insert'' @ ''<table>'' @ table_head sample_fields @
      table_body sample_formatter sample_fields sample_rows @ ''</table>'') = 1 \<and>
   tag_count ''/table''
     (getRowCountResult 2 ''inserted'' ''insert'' @ ''<table>'' @ table_head sample_fields @
      table_body sample_formatter sample_fields sample_rows @ ''</table>'') = 1 \<and>
   tag_count ''th'' (table_head sample_fields) = 3 \<and>
   tag_count ''tr'' (table_body sample_formatter sample_fields sample_rows) = 2 \<and>
   switch_command sample_formatter ((sample_result ''DELETE'')\<lparr>rows := Some []\<rparr>) =
     Inr (getRowCountResult 2 ''deleted'' ''delete'') \<and>
   free_of table_tags (getRowCountResult 2 ''deleted'' ''delete'')"
proof -
  have c1: "(command (sample_result ''INSERT'') = ''INSERT'' \<and> ''inserted'' = ''inserted'' \<and>
             ''insert'' = ''insert'') \<or>
            (command (sample_result ''INSERT'') = ''UPDATE'' \<and> ''inserted'' = ''updated'' \<and>
             ''insert'' = ''update'') \<or>
            (command (sample_result ''INSERT'') = ''DELETE'' \<and> ''inserted'' = ''deleted'' \<and>
             ''insert'' = ''delete'')"
    by (simp add: sample_result_def)
  have h1: "result_fields (sample_result ''INSERT'') = Some sample_fields \<and>
        rows (sample_result ''INSERT'') = Some sample_rows \<and> sample_fields \<noteq> [] \<and>
        sample_rows \<noteq> []"
    by (simp add: sample_defs)
  have c2: "(command ((sample_result ''DELETE'')\<lparr>rows := Some []\<rparr>) = ''INSERT'' \<and>
             ''deleted'' = ''inserted'' \<and> ''delete'' = ''insert'') \<or>
            (command ((sample_result ''DELETE'')\<lparr>rows := Some []\<rparr>) = ''UPDATE'' \<and>
             ''deleted'' = ''updated'' \<and> ''delete'' = ''update'') \<or>
            (command ((sample_result ''DELETE'')\<lparr>rows := Some []\<rparr>) = ''DELETE'' \<and>
             ''deleted'' = ''deleted'' \<and> ''delete'' = ''delete'')"
    by (simp add: sample_result_def)
  have h2: "result_fields ((sample_result ''DELETE'')\<lparr>rows := Some []\<rparr>) = None \<or>
            result_fields ((sample_result ''DELETE'')\<lparr>rows := Some []\<rparr>) = Some [] \<or>
            rows ((sample_result ''DELETE'')\<lparr>rows := Some []\<rparr>) = None \<or>
            rows ((sample_result ''DELETE'')\<lparr>rows := Some []\<rparr>) = Some []"
    by simp
  have n: "rowCount (sample_result ''INSERT'') = 2"
    "rowCount ((sample_result ''DELETE'')\<lparr>rows := Some []\<rparr>) = 2"
    "length sample_fields + 1 = 3" "length sample_rows = 2"
    by (simp_all add: sample_defs)
  note p1 = modify_result_table [OF c1, THEN conjunct1, THEN mp, OF h1, unfolded n]
  note p2 = modify_result_table [OF c2, where fmt = sample_formatter, THEN conjunct2, THEN mp,
      OF h2, unfolded n]
  note p3 = p1 [THEN conjunct2, THEN conjunct2, THEN mp, OF sample_markup_free]
  from p1 p2 p3 show ?thesis by blast
qed

text \<open>
  Without the condition the count fails: the renderer embeds a field name as it is, so a
  column named \<^verbatim>\<open><table>\<close> gives a fragment that holds two start tags of
  \<^verbatim>\<open>table\<close>.
\<close>

theorem modify_result_table_counterexample:
  "switch_command sample_formatter
     \<lparr>command = ''INSERT'', rowCount = 1,
      result_fields = Some [\<lparr>name = ''<table>'', display_type = ''int4'', format = ''text''\<rparr>],
      rows = Some [[JNum 7]], message = None\<rparr> =
   Inr (getRowCountResult 1 ''inserted'' ''insert'' @
        ''<table><thead><tr><th></th><th><div class=\"field-name\"><table></div><div class=\"field-type\">int4</div></th></tr></thead><tbody><tr><th class=\"row-header\">1</th><td class=\"text-field\">7</td></tr></tbody></table>'') \<and>
   tag_count ''table''
     (getRowCountResult 1 ''inserted'' ''insert'' @
        ''<table><thead><tr><th></th><th><div class=\"field-name\"><table></div><div class=\"field-type\">int4</div></th></tr></thead><tbody><tr><th class=\"row-header\">1</th><td class=\"text-field\">7</td></tr></tbody></table>'') = 2"
  by (simp add: switch_command_def generateInsertResults_def has_fields_and_rows_def
      generateSelectTableResult_def Let_def row_at_def sample_formatter_def
      getRowCountResult_def show_int_def show_nat.simps digit_char_def opens_tag_def tag_end_def)

subsection \<open>C2: the table of a SELECT result\<close>

text \<open>
  Claim C2, for a result that carries fields. A SELECT result whose fields are present
  renders as the row-count summary followed by a table, whatever its rows are; when the
  rows are absent or empty, the table is the header followed by an empty body.
\<close>

theorem select_result_table:
  assumes "command r = ''SELECT''" and "result_fields r = Some fs"
  shows "switch_command fmt r =
           Inr (getRowCountResult (rowCount r) ''returned'' ''select'' @
                ''<table>'' @ table_head fs @
                table_body fmt fs (case rows r of None \<Rightarrow> [] | Some rws \<Rightarrow> rws) @ ''</table>'') \<and>
         (rows r = None \<or> rows r = Some [] \<longrightarrow>
            switch_command fmt r =
              Inr (getRowCountResult (rowCount r) ''returned'' ''select'' @
                   ''<table>'' @ table_head fs @ ''<tbody></tbody></table>''))"
proof -
  have a: "switch_command fmt r =
           Inr (getRowCountResult (rowCount r) ''returned'' ''select'' @
                ''<table>'' @ table_head fs @
                table_body fmt fs (case rows r of None \<Rightarrow> [] | Some rws \<Rightarrow> rws) @ ''</table>'')"
    by (simp add: switch_command_select [OF assms(1)] generateSelectResult_eq [OF assms(2)])
  moreover have "(case rows r of None \<Rightarrow> [] | Some rws \<Rightarrow> rws) = []"
    if "rows r = None \<or> rows r = Some []"
    using that by auto
  ultimately show ?thesis by (auto simp: table_body_empty)
qed

text \<open>
  The theorem on a SELECT of two rows and on a SELECT of no rows.
\<close>

theorem select_result_table_witness:
  "switch_command sample_formatter (sample_result ''SELECT'') =
     Inr (getRowCountResult 2 ''returned'' ''select'' @ ''<table>'' @ table_head sample_fields @
          table_body sample_formatter sample_fields sample_rows @ ''</table>'') \<and>
   switch_command sample_formatter ((sample_result ''SELECT'')\<lparr>rowCount := 0, rows := Some []\<rparr>) =
     Inr (getRowCountResult 0 ''returned'' ''select'' @ ''<table>'' @ table_head sample_fields @
          ''<tbody></tbody></table>'')"
proof -
  have c1: "command (sample_result ''SELECT'') = ''SELECT''"
    and f1: "result_fields (sample_result ''SELECT'') = Some sample_fields"
    and c2: "command ((sample_result ''SELECT'')\<lparr>rowCount := 0, rows := Some []\<rparr>) = ''SELECT''"
    and f2: "result_fields ((sample_result ''SELECT'')\<lparr>rowCount := 0, rows := Some []\<rparr>) =
             Some sample_fields"
    and e2: "rows ((sample_result ''SELECT'')\<lparr>rowCount := 0, rows := Some []\<rparr>) = None \<or>
             rows ((sample_result ''SELECT'')\<lparr>rowCount := 0, rows := Some []\<rparr>) = Some []"
    by (simp_all add: sample_result_def)
  have n: "rowCount (sample_result ''SELECT'') = 2"
    "rowCount ((sample_result ''SELECT'')\<lparr>rowCount := 0, rows := Some []\<rparr>) = 0"
    "(case rows (sample_result ''SELECT'') of None \<Rightarrow> [] | Some rws \<Rightarrow> rws) = sample_rows"
    by (simp_all add: sample_result_def)
  note p1 = select_result_table [OF c1 f1, THEN conjunct1, unfolded n]
  note p2 = select_result_table [OF c2 f2, THEN conjunct2, THEN mp, OF e2, unfolded n]
  from p1 p2 show ?thesis by blast
qed

text \<open>
  A SELECT result without fields renders nothing: \<open>generateSelectTableResult\<close> iterates
  the absent fields and raises.
\<close>

theorem select_result_table_counterexample:
  "switch_command sample_formatter
     \<lparr>command = ''SELECT'', rowCount = 0, result_fields = None, rows = Some [], message = None\<rparr> =
   Inl TypeError"
  by (simp add: switch_command_def generateSelectResult_def generateSelectTableResult_def Let_def)

subsection \<open>C3: the dividers of a batch\<close>

text \<open>
  Claim C3, with the condition on the fragments that its count needs. When every result of
  a batch renders, to the fragments \<open>fs\<close>, the output is the fragments joined by the
  divider: one divider between each two consecutive fragments, whatever the fragments
  hold. The output of a batch that is not empty starts with the opening of a fragment's
  block and ends with the closing of a block or of a table, so it neither starts nor ends
  with the divider. The divider is an \<^verbatim>\<open>hr\<close> tag: when no fragment itself holds an
  \<^verbatim>\<open>hr\<close> tag, the output holds exactly \<open>length rs - 1\<close> of them.
\<close>

theorem divider_between_fragments:
  assumes "map (switch_command fmt) rs = map Inr fs"
  shows "getResultsTables fmt rs = Inr (array_join divider fs) \<and>
         (rs \<noteq> [] \<longrightarrow>
            prefix ''<pre '' (array_join divider fs) \<and>
            (suffix ''</pre>'' (array_join divider fs) \<or> suffix ''</table>'' (array_join divider fs)) \<and>
            \<not> prefix divider (array_join divider fs) \<and>
            \<not> suffix divider (array_join divider fs)) \<and>
         (rs \<noteq> [] \<and> list_all (\<lambda>f. tag_count ''hr'' f = 0) fs \<longrightarrow>
            tag_count ''hr'' (array_join divider fs) = length rs - 1)"
proof -
  from assms have len: "length fs = length rs"
    by (metis length_map)
  have shape: "prefix ''<pre '' f \<and> (suffix ''</pre>'' f \<or> suffix ''</table>'' f)"
    if "f \<in> set fs" for f
  proof -
    from that obtain i where i: "i < length fs" "fs ! i = f" by (auto simp: in_set_conv_nth)
    with assms len have "switch_command fmt (rs ! i) = Inr f"
      by (metis nth_map)
    then show ?thesis by (rule fragment_shape)
  qed
  have ends: "prefix ''<pre '' (array_join divider fs) \<and>
      (suffix ''</pre>'' (array_join divider fs) \<or> suffix ''</table>'' (array_join divider fs)) \<and>
      \<not> prefix divider (array_join divider fs) \<and>
      \<not> suffix divider (array_join divider fs)" if "rs \<noteq> []"
  proof -
    from that len obtain f fs' where fs: "fs = f # fs'" by (cases fs) auto
    from shape [of f] fs obtain f' where f': "f = ''<pre '' @ f'" by (auto simp: prefix_def)
    have a: "prefix ''<pre '' (array_join divider fs)"
      by (simp add: fs array_join_Cons f')
    have b: "\<not> prefix divider (array_join divider fs)"
      by (simp add: fs array_join_Cons f' divider_def)
    from fs have ne: "fs \<noteq> []" by simp
    then have "last fs \<in> set fs" by simp
    from shape [OF this] array_join_last [OF ne, of divider]
    have c: "suffix ''</pre>'' (array_join divider fs) \<or> suffix ''</table>'' (array_join divider fs)"
      using suffix_order.trans by blast
    then have "\<not> suffix divider (array_join divider fs)" by (rule not_suffix_divider)
    with a b c show ?thesis by simp
  qed
  from getResultsTables_eq [OF assms] ends joined_count [of fs] len
  show ?thesis by simp
qed

text \<open>
  The theorem on a batch of a SELECT, a message and a CREATE: two dividers.
\<close>

theorem divider_between_fragments_witness:
  "getResultsTables sample_formatter sample_batch = Inr (array_join divider sample_fragments) \<and>
   prefix ''<pre '' (array_join divider sample_fragments) \<and>
   \<not> prefix divider (array_join divider sample_fragments) \<and>
   \<not> suffix divider (array_join divider sample_fragments) \<and>
   tag_count ''hr'' (array_join divider sample_fragments) = 2"
proof -
  have ne: "sample_batch \<noteq> []" and n: "length sample_batch - 1 = 2"
    by (simp_all add: sample_batch_def)
  note p = divider_between_fragments [OF sample_batch_fragments]
  from ne sample_fragments_clean
  have h: "sample_batch \<noteq> [] \<and> list_all (\<lambda>f. tag_count ''hr'' f = 0) sample_fragments" ..
  from p [THEN conjunct1] p [THEN conjunct2, THEN conjunct1, THEN mp, OF ne]
    p [THEN conjunct2, THEN conjunct2, THEN mp, OF h, unfolded n]
  show ?thesis by blast
qed

text \<open>
  A message is embedded as it is. A batch of one message whose text is the divider's gives
  an output in which the divider occurs once, not \<open>1 - 1\<close> times.
\<close>

theorem divider_between_fragments_counterexample:
  "getResultsTables sample_formatter [sample_message\<lparr>message := Some divider\<rparr>] =
     Inr (generateMessage (sample_message\<lparr>message := Some divider\<rparr>)) \<and>
   occurrences divider (generateMessage (sample_message\<lparr>message := Some divider\<rparr>)) = 1 \<and>
   tag_count ''hr'' (generateMessage (sample_message\<lparr>message := Some divider\<rparr>)) = 1 \<and>
   length [sample_message\<lparr>message := Some divider\<rparr>] - 1 = 0"
  by (simp add: getResultsTables_def switch_command_def sample_message_def generateMessage_def
      divider_def opens_tag_def tag_end_def)

subsection \<open>C4: the round trip of the state\<close>

text \<open>
  Claim C4, for a truthy state whose serialization holds no \<^verbatim>\<open>&quot;\<close>. When the
  document is generated, the state attribute holds a text without double quotes, and
  reversing the escaping gives back the serialization \<open>s\<close> of the state exactly; so a
  deserializer that recovers the state from \<open>s\<close> recovers it from the document.
\<close>

theorem state_round_trip:
  assumes "truthy state" and "JSON_stringify state = Some s"
    and "occurrences ''&quot;'' s = 0"
    and "getResultsTables fmt results = Inr tables"
    and "deserialize s = Some state"
  shows "\<exists>e. embedded_state (generateResultsHtml pageScript nonce pretty fmt results state) = Some e \<and>
             CHR 0x22 \<notin> set e \<and> restore_quotes e = s \<and>
             deserialize (restore_quotes e) = Some state"
proof -
  from assms(1,2) have "JSON_stringify (if truthy state then state else JObj []) = Some s"
    by simp
  from embedded_state_eq [OF assms(4) this]
  have "embedded_state (generateResultsHtml pageScript nonce pretty fmt results state) =
          Some (replace_quotes s)" .
  moreover have "restore_quotes (replace_quotes s) = s"
    by (rule restore_replace_quotes [OF assms(3)])
  ultimately show ?thesis
    using assms(5) replace_quotes_no_quote [of s] by simp
qed

text \<open>
  The theorem on an object with a string that holds a double quote.
\<close>

theorem state_round_trip_witness:
  "\<exists>e. embedded_state
          (generateResultsHtml ''index.js'' ''1700000000000123'' False sample_formatter [] sample_state) =
        Some e \<and>
       CHR 0x22 \<notin> set e \<and> restore_quotes e = sample_state_text \<and>
       sample_deserialize (restore_quotes e) = Some sample_state"
proof -
  have t: "truthy sample_state" by (simp add: sample_state_def)
  have n: "occurrences ''&quot;'' sample_state_text = 0"
    by (simp add: sample_state_text_def)
  have d: "sample_deserialize sample_state_text = Some sample_state"
    by (simp add: sample_deserialize_def)
  from state_round_trip [where deserialize = sample_deserialize and fmt = sample_formatter,
      OF t sample_state_stringify n getResultsTables_Nil d]
  show ?thesis .
qed

text \<open>
  The two ways the round trip fails. The state \<open>0\<close> is falsy: the document holds
  \<^verbatim>\<open>{}\<close>, not the serialization \<^verbatim>\<open>0\<close>. The string \<^verbatim>\<open>&quot;\<close>
  serializes to itself between two double quotes; the ampersand is not escaped, so the
  reversal turns all three entities of the attribute into double quotes.
\<close>

theorem state_round_trip_counterexample:
  "embedded_state (generateResultsHtml ''index.js'' ''1700000000000123'' False sample_formatter [] (JNum 0)) =
     Some ''{}'' \<and>
   restore_quotes ''{}'' = ''{}'' \<and>
   JSON_stringify (JNum 0) = Some ''0'' \<and>
   embedded_state
     (generateResultsHtml ''index.js'' ''1700000000000123'' False sample_formatter [] (JStr ''&quot;'')) =
     Some ''&quot;&quot;&quot;'' \<and>
   restore_quotes ''&quot;&quot;&quot;'' = [CHR 0x22, CHR 0x22, CHR 0x22] \<and>
   JSON_stringify (JStr ''&quot;'') = Some (CHR 0x22 # ''&quot;'' @ [CHR 0x22])"
proof -
  have "JSON_stringify (if truthy (JNum 0) then JNum 0 else JObj []) = Some ''{}''"
    by simp
  from embedded_state_eq [OF getResultsTables_Nil this]
  have a: "embedded_state
      (generateResultsHtml ''index.js'' ''1700000000000123'' False sample_formatter [] (JNum 0)) =
      Some ''{}''"
    by simp
  have "JSON_stringify (if truthy (JStr ''&quot;'') then JStr ''&quot;'' else JObj []) =
        Some (CHR 0x22 # ''&quot;'' @ [CHR 0x22])"
    by (simp add: quoteJSONString_def quoteJSONChar_def)
  from embedded_state_eq [OF getResultsTables_Nil this]
  have b: "embedded_state
      (generateResultsHtml ''index.js'' ''1700000000000123'' False sample_formatter [] (JStr ''&quot;'')) =
      Some ''&quot;&quot;&quot;''"
    by simp
  have c: "JSON_stringify (JNum 0) = Some ''0''"
    by (simp add: show_int_def show_nat.simps digit_char_def)
  have d: "JSON_stringify (JStr ''&quot;'') = Some (CHR 0x22 # ''&quot;'' @ [CHR 0x22])"
    by (simp add: quoteJSONString_def quoteJSONChar_def)
  have e: "restore_quotes ''{}'' = ''{}''"
    "restore_quotes ''&quot;&quot;&quot;'' = [CHR 0x22, CHR 0x22, CHR 0x22]"
    by simp_all
  show ?thesis
    by (intro conjI) (rule a b c d e)+
qed

subsection \<open>C5: row or rows\<close>

text \<open>
  Claim C5. The summary is the opening of the block, the count, the word
  \<^verbatim>\<open>row\<close> when the count is 1 and \<^verbatim>\<open>rows\<close> for every other count, the
  generator's word and the end of the block; the counts 1 and 0 print as
  \<^verbatim>\<open>1\<close> and \<^verbatim>\<open>0\<close>.
\<close>

theorem row_count_plural:
  "getRowCountResult rc verb cls =
     ''<pre class=\"vscode-postgres-result vscode-postgres-result-'' @ cls @ ''\">'' @
     show_int rc @ (if rc = 1 then '' row '' else '' rows '') @ verb @ ''</pre>'' \<and>
   show_int 1 = ''1'' \<and> show_int 0 = ''0''"
  by (simp add: getRowCountResult_def show_int_def show_nat.simps digit_char_def)

subsection \<open>C6: unrecognized commands\<close>

text \<open>
  Claim C6, with the results that raise set aside. A result whose command is none of the
  seven recognized tags renders, alone or as a batch of one, as the generic block: a block
  that is not empty and holds the serialization of the whole result. For every command
  tag, the dispatcher returns a fragment that is not empty, unless the result is a SELECT
  without fields or an EXPLAIN without rows.
\<close>

theorem unknown_command_generic:
  "(command r \<notin> {''ext-message'', ''INSERT'', ''UPDATE'', ''CREATE'', ''DELETE'', ''EXPLAIN'', ''SELECT''} \<longrightarrow>
      switch_command fmt r = Inr (generateGenericResult r) \<and>
      getResultsTables fmt [r] = Inr (generateGenericResult r) \<and>
      generateGenericResult r \<noteq> [] \<and>
      (\<exists>dump. JSON_stringify (QueryResults_object r) = Some dump \<and>
         generateGenericResult r =
           ''<pre class=\"vscode-postgres-result vscode-postgres-result-generic\">'' @ dump @ ''</pre>'')) \<and>
   (\<not> (command r = ''SELECT'' \<and> result_fields r = None) \<and>
    \<not> (command r = ''EXPLAIN'' \<and> rows r = None) \<longrightarrow>
      (\<exists>f. switch_command fmt r = Inr f \<and> f \<noteq> []))"
proof (intro conjI impI)
  assume u: "command r \<notin> {''ext-message'', ''INSERT'', ''UPDATE'', ''CREATE'', ''DELETE'', ''EXPLAIN'', ''SELECT''}"
  show g: "switch_command fmt r = Inr (generateGenericResult r)"
    by (rule switch_command_generic [OF u])
  then show "getResultsTables fmt [r] = Inr (generateGenericResult r)"
    by (simp add: getResultsTables_def)
  from g show "generateGenericResult r \<noteq> []" by (rule fragment_not_empty)
  from QueryResults_object_dump [of r]
  show "\<exists>dump. JSON_stringify (QueryResults_object r) = Some dump \<and>
         generateGenericResult r =
           ''<pre class=\"vscode-postgres-result vscode-postgres-result-generic\">'' @ dump @ ''</pre>''"
    by (auto simp: generateGenericResult_def)
next
  assume "\<not> (command r = ''SELECT'' \<and> result_fields r = None) \<and>
          \<not> (command r = ''EXPLAIN'' \<and> rows r = None)"
  then obtain f where "switch_command fmt r = Inr f"
    using switch_command_total [of r fmt] by blast
  then show "\<exists>f. switch_command fmt r = Inr f \<and> f \<noteq> []"
    using fragment_not_empty by blast
qed

text \<open>
  The theorem on a VACUUM result, with its dump, and on a SELECT result.
\<close>

theorem unknown_command_generic_witness:
  "switch_command sample_formatter sample_vacuum = Inr (generateGenericResult sample_vacuum) \<and>
   getResultsTables sample_formatter [sample_vacuum] = Inr (generateGenericResult sample_vacuum) \<and>
   generateGenericResult sample_vacuum =
     ''<pre class=\"vscode-postgres-result vscode-postgres-result-generic\">'' @
     ''{\"command\":\"VACUUM\",\"rowCount\":0,\"rows\":[[7,null]]}'' @ ''</pre>'' \<and>
   (\<exists>f. switch_command sample_formatter (sample_result ''SELECT'') = Inr f \<and> f \<noteq> [])"
proof -
  have u: "command sample_vacuum \<notin>
             {''ext-message'', ''INSERT'', ''UPDATE'', ''CREATE'', ''DELETE'', ''EXPLAIN'', ''SELECT''}"
    by (simp add: sample_vacuum_def)
  have d: "generateGenericResult sample_vacuum =
     ''<pre class=\"vscode-postgres-result vscode-postgres-result-generic\">'' @
     ''{\"command\":\"VACUUM\",\"rowCount\":0,\"rows\":[[7,null]]}'' @ ''</pre>''"
    by (simp add: generateGenericResult_def sample_vacuum_def QueryResults_object_def
        quoteJSONString_def quoteJSONChar_def show_int_def show_nat.simps digit_char_def)
  have w: "\<not> (command (sample_result ''SELECT'') = ''SELECT'' \<and>
               result_fields (sample_result ''SELECT'') = None) \<and>
           \<not> (command (sample_result ''SELECT'') = ''EXPLAIN'' \<and> rows (sample_result ''SELECT'') = None)"
    by (simp add: sample_result_def)
  note p = unknown_command_generic [of sample_vacuum sample_formatter, THEN conjunct1, THEN mp, OF u]
  note q = unknown_command_generic [of "sample_result ''SELECT''" sample_formatter, THEN conjunct2,
      THEN mp, OF w]
  from p d q show ?thesis by blast
qed

text \<open>
  Not every result of a recognized command gives a fragment: an EXPLAIN result without
  rows raises.
\<close>

theorem unknown_command_generic_counterexample:
  "switch_command sample_formatter
     \<lparr>command = ''EXPLAIN'', rowCount = 0, result_fields = None, rows = None, message = None\<rparr> =
   Inl TypeError"
  by (simp add: switch_command_def generateExplainResult_def)

subsection \<open>C7: the numbering of the rows\<close>

text \<open>
  Claim C7. The table of a result with fields \<open>fs\<close> and rows \<open>rws\<close> is the header
  followed by one body row per row, in order, and the body row at position \<open>i\<close>
  (counted from 0) starts with the index cell that holds \<open>i + 1\<close>, whatever the data
  holds. The numbering belongs to the table: in the output of every batch that renders, the
  table of a result of the batch stands as this same text, numbered from 1, wherever the
  result is in the batch.
\<close>

theorem row_index_numbering:
  assumes "result_fields r = Some fs" and "rows r = Some rws"
  shows "let t = ''<table>'' @ table_head fs @ ''<tbody>'' @
                 concat (map (\<lambda>i. ''<tr><th class=\"row-header\">'' @ show_nat (i + 1) @ ''</th>'' @
                                    row_cells fmt fs (rws ! i) @ ''</tr>'')
                           [0..<length rws]) @
                 ''</tbody></table>''
         in generateSelectTableResult fmt r = Inr t \<and>
            (\<forall>rs out. getResultsTables fmt rs = Inr out \<and> r \<in> set rs \<and>
               (command r = ''SELECT'' \<or>
                command r \<in> {''INSERT'', ''UPDATE'', ''DELETE''} \<and> fs \<noteq> [] \<and> rws \<noteq> []) \<longrightarrow>
               (\<exists>before after. out = before @ t @ after))"
proof -
  define t where "t = ''<table>'' @ table_head fs @ ''<tbody>'' @
                 concat (map (\<lambda>i. ''<tr><th class=\"row-header\">'' @ show_nat (i + 1) @ ''</th>'' @
                                    row_cells fmt fs (rws ! i) @ ''</tr>'')
                           [0..<length rws]) @
                 ''</tbody></table>''"
  have t: "generateSelectTableResult fmt r = Inr t"
    by (simp add: generateSelectTableResult_eq [OF assms(1)] assms(2) t_def table_body_def
        body_row_def)
  have "\<exists>before after. out = before @ t @ after"
    if out: "getResultsTables fmt rs = Inr out" and r: "r \<in> set rs"
      and c: "command r = ''SELECT'' \<or>
              command r \<in> {''INSERT'', ''UPDATE'', ''DELETE''} \<and> fs \<noteq> [] \<and> rws \<noteq> []"
    for rs out
  proof -
    have "\<exists>s. switch_command fmt r = Inr (s @ t)"
      using c
    proof
      assume "command r = ''SELECT''"
      then show ?thesis
        by (simp add: switch_command_select generateSelectResult_def t)
    next
      assume m: "command r \<in> {''INSERT'', ''UPDATE'', ''DELETE''} \<and> fs \<noteq> [] \<and> rws \<noteq> []"
      with assms have g: "has_fields_and_rows r" by (simp add: has_fields_and_rows_iff)
      from m consider "command r = ''INSERT''" | "command r = ''UPDATE''" | "command r = ''DELETE''"
        by blast
      then show ?thesis
      proof cases
        case 1
        then show ?thesis
          using switch_command_modify [of r "''inserted''" "''insert''" fmt] g t by simp
      next
        case 2
        then show ?thesis
          using switch_command_modify [of r "''updated''" "''update''" fmt] g t by simp
      next
        case 3
        then show ?thesis
          using switch_command_modify [of r "''deleted''" "''delete''" fmt] g t by simp
      qed
    qed
    then obtain s where "switch_command fmt r = Inr (s @ t)" by blast
    from fragment_in_output [OF out r this] obtain a b where "out = a @ (s @ t) @ b" by blast
    then have "out = (a @ s) @ t @ b" by simp
    then show ?thesis by blast
  qed
  with t show ?thesis unfolding t_def Let_def by blast
qed

text \<open>
  The theorem on a table of two rows whose first cells hold 7 and 9, and on a batch that
  holds the table twice.
\<close>

theorem row_index_numbering_witness:
  "generateSelectTableResult sample_formatter (sample_result ''SELECT'') = Inr sample_table \<and>
   (\<exists>out before after.
      getResultsTables sample_formatter [sample_result ''SELECT'', sample_result ''SELECT''] = Inr out \<and>
      out = before @ sample_table @ after)"
proof -
  let ?r = "sample_result ''SELECT''"
  have f: "result_fields ?r = Some sample_fields" and r: "rows ?r = Some sample_rows"
    and c: "command ?r = ''SELECT''"
    by (simp_all add: sample_result_def)
  have t: "''<table>'' @ table_head sample_fields @ ''<tbody>'' @
           concat (map (\<lambda>i. ''<tr><th class=\"row-header\">'' @ show_nat (i + 1) @ ''</th>'' @
                              row_cells sample_formatter sample_fields (sample_rows ! i) @ ''</tr>'')
                     [0..<length sample_rows]) @
           ''</tbody></table>'' = sample_table"
  proof -
    have n: "show_nat (Suc 0) = ''1''" "show_nat (Suc (Suc 0)) = ''2''"
      by (simp_all add: show_nat.simps digit_char_def)
    have u: "[0..<length sample_rows] = [0, 1]"
      by (simp add: sample_rows_def upt_rec)
    have c0: "row_cells sample_formatter sample_fields (sample_rows ! 0) =
              ''<td class=\"text-field\">7</td><td class=\"text-field\"><i>null</i></td>''"
      by (simp add: row_cells_def data_cell_def cell_text_def row_at_def sample_formatter_def
          sample_fields_def sample_rows_def show_int_def show_nat.simps digit_char_def)
    have c1: "row_cells sample_formatter sample_fields (sample_rows ! Suc 0) =
              ''<td class=\"text-field\">9</td><td class=\"text-field\">a < b</td>''"
      by (simp add: row_cells_def data_cell_def cell_text_def row_at_def sample_formatter_def
          sample_fields_def sample_rows_def show_int_def show_nat.simps digit_char_def)
    have h: "table_head sample_fields =
             ''<thead><tr><th></th>'' @
             ''<th><div class=\"field-name\">id</div><div class=\"field-type\">int4</div></th>'' @
             ''<th><div class=\"field-name\">note</div><div class=\"field-type\">text</div></th>'' @
             ''</tr></thead>''"
      by (simp add: table_head_def header_cell_def sample_fields_def)
    show ?thesis
      by (simp add: u n c0 c1 h sample_table_def)
  qed
  note p = row_index_numbering [OF f r, of sample_formatter, unfolded Let_def t]
  obtain g where g: "switch_command sample_formatter ?r = Inr g"
    using switch_command_total [of ?r sample_formatter] by (auto simp: sample_result_def)
  then have "map (switch_command sample_formatter) [?r, ?r] = map Inr [g, g]" by simp
  then have o: "getResultsTables sample_formatter [?r, ?r] = Inr (array_join divider [g, g])"
    by (rule getResultsTables_eq)
  have m: "?r \<in> set [?r, ?r]" by simp
  from c have "command ?r = ''SELECT'' \<or>
      command ?r \<in> {''INSERT'', ''UPDATE'', ''DELETE''} \<and> sample_fields \<noteq> [] \<and> sample_rows \<noteq> []"
    by (rule disjI1)
  with o m have "getResultsTables sample_formatter [?r, ?r] = Inr (array_join divider [g, g]) \<and>
      ?r \<in> set [?r, ?r] \<and>
      (command ?r = ''SELECT'' \<or>
       command ?r \<in> {''INSERT'', ''UPDATE'', ''DELETE''} \<and> sample_fields \<noteq> [] \<and> sample_rows \<noteq> [])"
    by (intro conjI)
  from p [THEN conjunct2, THEN spec, THEN spec, THEN mp, OF this]
  obtain before after where "array_join divider [g, g] = before @ sample_table @ after"
    by blast
  with o p [THEN conjunct1] show ?thesis by blast
qed

subsection \<open>C8: the plan of an EXPLAIN result\<close>

text \<open>
  Claim C8, for a result that carries rows. An EXPLAIN result whose rows are present renders
  as the opening tag of the plan block, the texts of the rows joined by a line feed, and
  the closing tag, whatever the rows hold. When no row's text holds a start or end tag of
  \<^verbatim>\<open>pre\<close>, the fragment holds exactly one start tag and one end tag of
  \<^verbatim>\<open>pre\<close>: a single block. When no row's text holds table markup, neither does the
  fragment.
\<close>

theorem explain_result_plan:
  assumes "command r = ''EXPLAIN''" and "rows r = Some rws"
  shows "switch_command fmt r =
           Inr (''<pre class=\"vscode-postgres-result vscode-postgres-result-explain\">'' @
                array_join ''\<newline>'' (map (\<lambda>row. toString (JArr row)) rws) @ ''</pre>'') \<and>
         (list_all (\<lambda>row. free_of [''pre'', ''/pre''] (toString (JArr row))) rws \<longrightarrow>
            tag_count ''pre''
              (''<pre class=\"vscode-postgres-result vscode-postgres-result-explain\">'' @
               array_join ''\<newline>'' (map (\<lambda>row. toString (JArr row)) rws) @ ''</pre>'') = 1 \<and>
            tag_count ''/pre''
              (''<pre class=\"vscode-postgres-result vscode-postgres-result-explain\">'' @
               array_join ''\<newline>'' (map (\<lambda>row. toString (JArr row)) rws) @ ''</pre>'') = 1) \<and>
         (list_all (\<lambda>row. free_of table_tags (toString (JArr row))) rws \<longrightarrow>
            free_of table_tags
              (''<pre class=\"vscode-postgres-result vscode-postgres-result-explain\">'' @
               array_join ''\<newline>'' (map (\<lambda>row. toString (JArr row)) rws) @ ''</pre>''))"
proof (intro conjI impI)
  show "switch_command fmt r =
           Inr (''<pre class=\"vscode-postgres-result vscode-postgres-result-explain\">'' @
                array_join ''\<newline>'' (map (\<lambda>row. toString (JArr row)) rws) @ ''</pre>'')"
    by (simp add: switch_command_explain [OF assms(1)] generateExplainResult_def assms(2))
next
  assume "list_all (\<lambda>row. free_of [''pre'', ''/pre''] (toString (JArr row))) rws"
  then have a: "list_all (\<lambda>t. tag_count ''pre'' t = 0) (map (\<lambda>row. toString (JArr row)) rws)"
    and b: "list_all (\<lambda>t. tag_count ''/pre'' t = 0) (map (\<lambda>row. toString (JArr row)) rws)"
    by (simp_all add: list_all_iff free_of_def)
  have "tag_count ''pre'' (array_join ''\<newline>'' (map (\<lambda>row. toString (JArr row)) rws) @ ''</pre>'') =
        tag_count ''pre'' ''</pre>''"
    by (rule joined_lines_tags [OF a]) simp_all
  then show "tag_count ''pre''
      (''<pre class=\"vscode-postgres-result vscode-postgres-result-explain\">'' @
       array_join ''\<newline>'' (map (\<lambda>row. toString (JArr row)) rws) @ ''</pre>'') = 1"
    by (simp add: explain_block_pre(1) opens_tag_def tag_end_def)
  have "tag_count ''/pre'' (array_join ''\<newline>'' (map (\<lambda>row. toString (JArr row)) rws) @ ''</pre>'') =
        tag_count ''/pre'' ''</pre>''"
    by (rule joined_lines_tags [OF b]) simp_all
  then show "tag_count ''/pre''
      (''<pre class=\"vscode-postgres-result vscode-postgres-result-explain\">'' @
       array_join ''\<newline>'' (map (\<lambda>row. toString (JArr row)) rws) @ ''</pre>'') = 1"
    by (simp add: explain_block_pre(2) opens_tag_def tag_end_def)
next
  assume free: "list_all (\<lambda>row. free_of table_tags (toString (JArr row))) rws"
  show "free_of table_tags
      (''<pre class=\"vscode-postgres-result vscode-postgres-result-explain\">'' @
       array_join ''\<newline>'' (map (\<lambda>row. toString (JArr row)) rws) @ ''</pre>'')"
    unfolding free_of_iff
  proof
    fix nm assume nm: "nm \<in> set table_tags"
    with free have a: "list_all (\<lambda>t. tag_count nm t = 0) (map (\<lambda>row. toString (JArr row)) rws)"
      by (simp add: list_all_iff free_of_iff)
    have "tag_count nm (array_join ''\<newline>'' (map (\<lambda>row. toString (JArr row)) rws) @ ''</pre>'') =
          tag_count nm ''</pre>''"
      by (rule joined_lines_tags [OF a table_tags_stop(1,2) [OF nm]])
        (simp add: table_tags_stop(3,4) [OF nm])
    then show "tag_count nm
        (''<pre class=\"vscode-postgres-result vscode-postgres-result-explain\">'' @
         array_join ''\<newline>'' (map (\<lambda>row. toString (JArr row)) rws) @ ''</pre>'') = 0"
      by (simp only: explain_block_table_tags [OF nm])
  qed
qed

text \<open>
  The theorem on a plan of two lines, one of which holds a comparison sign.
\<close>

theorem explain_result_plan_witness:
  "switch_command sample_formatter sample_plan =
     Inr (''<pre class=\"vscode-postgres-result vscode-postgres-result-explain\">'' @
          ''Seq Scan on t\<newline>  Filter: (a < 5)'' @ ''</pre>'') \<and>
   tag_count ''pre''
     (''<pre class=\"vscode-postgres-result vscode-postgres-result-explain\">'' @
      ''Seq Scan on t\<newline>  Filter: (a < 5)'' @ ''</pre>'') = 1 \<and>
   tag_count ''/pre''
     (''<pre class=\"vscode-postgres-result vscode-postgres-result-explain\">'' @
      ''Seq Scan on t\<newline>  Filter: (a < 5)'' @ ''</pre>'') = 1 \<and>
   free_of table_tags
     (''<pre class=\"vscode-postgres-result vscode-postgres-result-explain\">'' @
      ''Seq Scan on t\<newline>  Filter: (a < 5)'' @ ''</pre>'')"
proof -
  have c: "command sample_plan = ''EXPLAIN''"
    and r: "rows sample_plan = Some [[JStr ''Seq Scan on t''], [JStr ''  Filter: (a < 5)'']]"
    by (simp_all add: sample_plan_def)
  have t: "array_join ''\<newline>''
             (map (\<lambda>row. toString (JArr row)) [[JStr ''Seq Scan on t''], [JStr ''  Filter: (a < 5)'']]) =
           ''Seq Scan on t\<newline>  Filter: (a < 5)''"
    by simp
  have h1: "list_all (\<lambda>row. free_of [''pre'', ''/pre''] (toString (JArr row)))
             [[JStr ''Seq Scan on t''], [JStr ''  Filter: (a < 5)'']]"
    by (simp add: free_of_def opens_tag_def tag_end_def)
  have h2: "list_all (\<lambda>row. free_of table_tags (toString (JArr row)))
             [[JStr ''Seq Scan on t''], [JStr ''  Filter: (a < 5)'']]"
    by (simp add: free_of_def table_tags_def table_elements_def opens_tag_def tag_end_def)
  note p = explain_result_plan [OF c r, of sample_formatter, unfolded t]
  from p [THEN conjunct1] p [THEN conjunct2, THEN conjunct1, THEN mp, OF h1]
    p [THEN conjunct2, THEN conjunct2, THEN mp, OF h2]
  show ?thesis by blast
qed

text \<open>
  The text of a row is embedded as it is: a row that closes the block and opens another
  gives two blocks, and a row that holds table markup puts a table into the block. An
  EXPLAIN result without rows raises.
\<close>

theorem explain_result_plan_counterexample:
  "switch_command sample_formatter (sample_plan\<lparr>rows := Some [[JStr ''a</pre><pre>b'']]\<rparr>) =
     Inr (''<pre class=\"vscode-postgres-result vscode-postgres-result-explain\">'' @
          ''a</pre><pre>b'' @ ''</pre>'') \<and>
   tag_count ''pre''
     (''<pre class=\"vscode-postgres-result vscode-postgres-result-explain\">'' @
      ''a</pre><pre>b'' @ ''</pre>'') = 2 \<and>
   switch_command sample_formatter
     (sample_plan\<lparr>rows := Some [[JStr ''<table><tr><td>x</td></tr></table>'']]\<rparr>) =
     Inr (''<pre class=\"vscode-postgres-result vscode-postgres-result-explain\">'' @
          ''<table><tr><td>x</td></tr></table>'' @ ''</pre>'') \<and>
   tag_count ''table''
     (''<pre class=\"vscode-postgres-result vscode-postgres-result-explain\">'' @
      ''<table><tr><td>x</td></tr></table>'' @ ''</pre>'') = 1 \<and>
   switch_command sample_formatter (sample_plan\<lparr>rows := None\<rparr>) = Inl TypeError"
  by (simp add: switch_command_def generateExplainResult_def sample_plan_def opens_tag_def
      tag_end_def)

subsection \<open>C9: a CREATE result has no table\<close>

text \<open>
  Claim C9. A CREATE result renders as the row-count summary alone, whatever its fields and
  rows hold, and the summary holds no table tag.
\<close>

theorem create_result_no_table:
  assumes "command r = ''CREATE''"
  shows "switch_command fmt r = Inr (getRowCountResult (rowCount r) ''created'' ''create'') \<and>
         occurrences ''<t'' (getRowCountResult (rowCount r) ''created'' ''create'') = 0"
proof -
  have "occurrences ''<t'' (getRowCountResult (rowCount r) ''created'' ''create'' @ []) =
        occurrences ''<t'' []"
    by (rule getRowCountResult_no_tag) simp_all
  then show ?thesis
    by (simp add: switch_command_create [OF assms] generateCreateResults_def)
qed

text \<open>
  The theorem on a CREATE result that carries fields and rows.
\<close>

theorem create_result_no_table_witness:
  "switch_command sample_formatter (sample_result ''CREATE'') =
     Inr (getRowCountResult 2 ''created'' ''create'') \<and>
   occurrences ''<t'' (getRowCountResult 2 ''created'' ''create'') = 0 \<and>
   result_fields (sample_result ''CREATE'') = Some sample_fields \<and>
   rows (sample_result ''CREATE'') = Some sample_rows"
proof -
  have c: "command (sample_result ''CREATE'') = ''CREATE''"
    and n: "rowCount (sample_result ''CREATE'') = 2"
    by (simp_all add: sample_result_def)
  from create_result_no_table [OF c, of sample_formatter, unfolded n]
  show ?thesis by (simp add: sample_result_def)
qed

subsection \<open>C10: a falsy state is embedded as the empty object\<close>

text \<open>
  Claim C10, without its last part for the states that serialize as
  \<^verbatim>\<open>null\<close>. The falsy states are \<^verbatim>\<open>undefined\<close> (no state),
  \<^verbatim>\<open>null\<close>, \<^verbatim>\<open>false\<close>, \<^verbatim>\<open>0\<close>, \<^verbatim>\<open>NaN\<close> and the empty string.
  When the document is generated and the state is falsy, the state attribute holds
  \<^verbatim>\<open>{}\<close>, the serialization of the empty object, which is not the serialization of
  the state. For every state, the attribute is not \<^verbatim>\<open>undefined\<close>. It is
  \<^verbatim>\<open>null\<close> exactly for the states \<^verbatim>\<open>Infinity\<close> and
  \<^verbatim>\<open>-Infinity\<close>: only for a truthy state whose own serialization is
  \<^verbatim>\<open>null\<close>.
\<close>

theorem falsy_state_empty_object:
  assumes "getResultsTables fmt results = Inr tables"
  shows "(\<not> truthy state \<longleftrightarrow> state \<in> {JUndefined, JNull, JBool False, JNum 0, JNaN, JStr []}) \<and>
         (\<not> truthy state \<longrightarrow>
            embedded_state (generateResultsHtml pageScript nonce pretty fmt results state) =
              Some ''{}'' \<and>
            JSON_stringify (JObj []) = Some ''{}'' \<and>
            JSON_stringify state \<noteq> Some ''{}'') \<and>
         embedded_state (generateResultsHtml pageScript nonce pretty fmt results state) \<noteq>
           Some ''undefined'' \<and>
         (embedded_state (generateResultsHtml pageScript nonce pretty fmt results state) =
            Some ''null'' \<longleftrightarrow> state \<in> {JInfinity, JNegInfinity}) \<and>
         (embedded_state (generateResultsHtml pageScript nonce pretty fmt results state) =
            Some ''null'' \<longrightarrow> truthy state \<and> JSON_stringify state = Some ''null'')"
proof (cases "truthy state")
  case False
  then have "JSON_stringify (if truthy state then state else JObj []) = Some ''{}''"
    by simp
  from embedded_state_eq [OF assms this]
  have "embedded_state (generateResultsHtml pageScript nonce pretty fmt results state) =
          Some ''{}''"
    by simp
  moreover from False have "state \<notin> {JInfinity, JNegInfinity}" by auto
  ultimately show ?thesis
    using falsy_text [OF False] falsy_values [of state] False by simp
next
  case True
  from True obtain s where s: "JSON_stringify state = Some s"
    by (cases state) auto
  with True have "JSON_stringify (if truthy state then state else JObj []) = Some s"
    by simp
  from embedded_state_eq [OF assms this]
  have e: "embedded_state (generateResultsHtml pageScript nonce pretty fmt results state) =
          Some (replace_quotes s)" .
  have "JSON_stringify state = Some ''null''" if "state \<in> {JInfinity, JNegInfinity}"
    using that by auto
  with truthy_text [OF True s] falsy_values [of state] True e show ?thesis by auto
qed

text \<open>
  The theorem on the state \<open>0\<close> and on a state that is an object.
\<close>

theorem falsy_state_empty_object_witness:
  "embedded_state (generateResultsHtml ''index.js'' ''1700000000000123'' False sample_formatter [] (JNum 0)) =
     Some ''{}'' \<and>
   JSON_stringify (JObj []) = Some ''{}'' \<and>
   JSON_stringify (JNum 0) \<noteq> Some ''{}'' \<and>
   embedded_state (generateResultsHtml ''index.js'' ''1700000000000123'' False sample_formatter [] (JNum 0)) \<noteq>
     Some ''undefined'' \<and>
   embedded_state (generateResultsHtml ''index.js'' ''1700000000000123'' False sample_formatter [] (JNum 0)) \<noteq>
     Some ''null'' \<and>
   embedded_state (generateResultsHtml ''index.js'' ''1700000000000123'' False sample_formatter [] sample_state) \<noteq>
     Some ''null''"
proof -
  have f: "\<not> truthy (JNum 0)" by simp
  have n: "JNum 0 \<notin> {JInfinity, JNegInfinity}" "sample_state \<notin> {JInfinity, JNegInfinity}"
    by (simp_all add: sample_state_def)
  note p = falsy_state_empty_object [OF getResultsTables_Nil, of "JNum 0" "''index.js''"
      "''1700000000000123''" False sample_formatter]
  note q = falsy_state_empty_object [OF getResultsTables_Nil, of sample_state "''index.js''"
      "''1700000000000123''" False sample_formatter]
  from p f n q show ?thesis by blast
qed

text \<open>
  The number \<^verbatim>\<open>Infinity\<close> is truthy and serializes as \<^verbatim>\<open>null\<close>, so the
  state attribute of the document is \<^verbatim>\<open>null\<close>.
\<close>

theorem falsy_state_empty_object_counterexample:
  "truthy JInfinity \<and>
   JSON_stringify JInfinity = Some ''null'' \<and>
   embedded_state (generateResultsHtml ''index.js'' ''1700000000000123'' False sample_formatter [] JInfinity) =
     Some ''null''"
  using embedded_state_eq [OF getResultsTables_Nil, of JInfinity "''null''" "''index.js''"
      "''1700000000000123''" False sample_formatter]
  by simp

end
